theory Spec2Isabelle
  imports Main "HOL-Library.Char_ord" "HOL-Library.List_Lexorder"
begin

section \<open>The reply builder of aah (reply.go)\<close>

text \<open>
  The Go package builds an HTTP response in two steps. A \<open>Reply\<close> collects what the
  handler asks for (status, content type, headers, cookies, redirect, gzip, an error, a
  renderer); the renderer later serialises its payload into a writer. The first part of
  this theory embeds the builder, the second the renderers and the XML mapper of
  \<open>Data\<close>. Byte strings and Go strings are both \<open>string\<close> (a list of 8-bit
  characters).

  The functions of reply.go are embedded as they are written. What they call in Go's
  library (\<open>strings\<close>, \<open>fmt\<close>, \<open>encoding/json\<close>, \<open>encoding/xml\<close>, \<open>io\<close>,
  \<open>net/http\<close>) is modelled next to them, for text in ASCII: where the library treats
  the code points beyond ASCII in a way of their own (case mapping, escapes of invalid
  UTF-8), the model copies their bytes.
\<close>

subsection \<open>Go values, errors, readers and writers\<close>

text \<open>
  Go's \<open>error\<close> values: \<open>errorString\<close> with its message is what \<open>errors.New\<close>
  and \<open>fmt.Errorf\<close> build, \<open>PathError op path msg\<close> is the \<open>*os.PathError\<close> of
  a failed file operation, \<open>UnsupportedValueError\<close> is what the JSON encoder returns
  for a value it cannot encode (its argument is the value as text).
\<close>

datatype go_error =
    errorString string
  | PathError string string string
  | UnsupportedValueError string

text \<open>
  The payloads are \<open>interface{}\<close> values. The development covers this part of Go's
  values: the nil interface, booleans, \<open>int\<close>s, strings, the \<open>float64\<close> NaN (a value
  the JSON encoder rejects) and \<open>aah.Data\<close>, the map from strings to such values.
  A \<open>Data\<close> is the list of its entries in the order in which a \<open>range\<close> loop visits
  them; Go leaves that order open, so a statement about every list is a statement about
  every order.
\<close>

datatype iface =
    VNil
  | VBool bool
  | VInt int
  | VString string
  | VNaN
  | VData "(string \<times> iface) list"

type_synonym Data = "(string \<times> iface) list"

text \<open>
  An \<open>io.Writer\<close>. \<open>written\<close> holds the bytes that have reached the sink; \<open>room\<close>
  says how the sink fails: \<open>None\<close> accepts every write (a \<open>bytes.Buffer\<close>),
  \<open>Some k\<close> accepts \<open>k\<close> more bytes and then fails with a short write. \<open>Write\<close>
  returns the sink, the number of bytes taken and the error.
\<close>

record Writer =
  written :: string
  room :: "nat option"

definition ErrShortWrite :: go_error where
  "ErrShortWrite = errorString ''short write''"

definition Write :: "string \<Rightarrow> Writer \<Rightarrow> Writer \<times> nat \<times> go_error option" where
  "Write p w =
     (case room w of
        None \<Rightarrow> (w\<lparr>written := written w @ p\<rparr>, length p, None)
      | Some k \<Rightarrow>
          if length p \<le> k
          then (w\<lparr>written := written w @ p, room := Some (k - length p)\<rparr>, length p, None)
          else (w\<lparr>written := written w @ take k p, room := Some 0\<rparr>, k, Some ErrShortWrite))"

text \<open>
  An \<open>io.Reader\<close>: the bytes it still yields, the error it ends with (\<open>None\<close> for a
  plain end of file) and whether it is an \<open>io.Closer\<close> as well.
\<close>

record Reader =
  remaining :: string
  fails_with :: "go_error option"
  closer :: bool

definition bytes_NewReader :: "string \<Rightarrow> Reader" where
  "bytes_NewReader b = \<lparr>remaining = b, fails_with = None, closer = False\<rparr>"

text \<open>
  \<open>io.Copy(w, r)\<close> writes what the reader yields; a failed write ends the copy with the
  write's error, otherwise the reader's own error, if it has one, is returned.
\<close>

definition io_Copy :: "Writer \<Rightarrow> Reader \<Rightarrow> Writer \<times> nat \<times> go_error option" where
  "io_Copy w r =
     (case Write (remaining r) w of
        (w', n, Some e) \<Rightarrow> (w', n, Some e)
      | (w', n, None) \<Rightarrow> (w', n, fails_with r))"

subsection \<open>Strings\<close>

text \<open>
  \<open>strings.ToLower\<close> on the ASCII letters. Bytes from 128 on (the UTF-8 encoding of the
  other code points) are kept as they are.
\<close>

definition toLower_byte :: "char \<Rightarrow> char" where
  "toLower_byte c =
     (let n = (of_char c :: nat) in if 65 \<le> n \<and> n \<le> 90 then char_of (n + 32) else c)"

definition toUpper_byte :: "char \<Rightarrow> char" where
  "toUpper_byte c =
     (let n = (of_char c :: nat) in if 97 \<le> n \<and> n \<le> 122 then char_of (n - 32) else c)"

definition strings_ToLower :: "string \<Rightarrow> string" where
  "strings_ToLower s = map toLower_byte s"

subsection \<open>Constants of the packages \<open>net/http\<close> and \<open>ahttp\<close>\<close>

definition StatusOK :: int where "StatusOK = 200"
definition StatusCreated :: int where "StatusCreated = 201"
definition StatusAccepted :: int where "StatusAccepted = 202"
definition StatusNoContent :: int where "StatusNoContent = 204"
definition StatusMovedPermanently :: int where "StatusMovedPermanently = 301"
definition StatusFound :: int where "StatusFound = 302"
definition StatusTemporaryRedirect :: int where "StatusTemporaryRedirect = 307"
definition StatusBadRequest :: int where "StatusBadRequest = 400"
definition StatusUnauthorized :: int where "StatusUnauthorized = 401"
definition StatusForbidden :: int where "StatusForbidden = 403"
definition StatusNotFound :: int where "StatusNotFound = 404"
definition StatusMethodNotAllowed :: int where "StatusMethodNotAllowed = 405"
definition StatusNotAcceptable :: int where "StatusNotAcceptable = 406"
definition StatusConflict :: int where "StatusConflict = 409"
definition StatusUnsupportedMediaType :: int where "StatusUnsupportedMediaType = 415"
definition StatusInternalServerError :: int where "StatusInternalServerError = 500"
definition StatusServiceUnavailable :: int where "StatusServiceUnavailable = 503"

text \<open>
  Modelled from the spec: the constants of package \<open>ahttp\<close>, which is not part of
  reply.go. The spec gives the MIME strings (section 6); the two header keys are the
  names of the HTTP headers.
\<close>

definition HeaderContentType :: string where
  "HeaderContentType = ''Content-Type''"

definition HeaderContentDisposition :: string where
  "HeaderContentDisposition = ''Content-Disposition''"

definition ContentTypeJSON :: string where
  "ContentTypeJSON = ''application/json; charset=utf-8''"

definition ContentTypeJavascript :: string where
  "ContentTypeJavascript = ''application/javascript; charset=utf-8''"

definition ContentTypeXML :: string where
  "ContentTypeXML = ''application/xml; charset=utf-8''"

definition ContentTypePlainText :: string where
  "ContentTypePlainText = ''text/plain; charset=utf-8''"

definition ContentTypeHTML :: string where
  "ContentTypeHTML = ''text/html; charset=utf-8''"

subsection \<open>The response header of the context\<close>

text \<open>
  \<open>http.Header\<close> maps a canonical key to its values. \<open>Del\<close>, \<open>Set\<close> and \<open>Add\<close>
  bring the key into canonical form first (\<open>textproto.CanonicalMIMEHeaderKey\<close>): a key
  made of token bytes gets an upper-case letter at its start and after each hyphen and
  lower-case letters elsewhere, any other key is left as it is.
\<close>

type_synonym Header = "string \<Rightarrow> string list option"

definition validHeaderFieldByte :: "char \<Rightarrow> bool" where
  "validHeaderFieldByte c =
     (let n = (of_char c :: nat) in
        (48 \<le> n \<and> n \<le> 57) \<or> (65 \<le> n \<and> n \<le> 90) \<or> (97 \<le> n \<and> n \<le> 122) \<or>
        List.member ''!#$%&*+-.^_`|~'' c \<or> n = 39)"

fun canonicalMIMEHeaderKey :: "bool \<Rightarrow> string \<Rightarrow> string" where
  "canonicalMIMEHeaderKey upper [] = []"
| "canonicalMIMEHeaderKey upper (c # cs) =
     (let c' = (if upper then toUpper_byte c else toLower_byte c)
      in c' # canonicalMIMEHeaderKey (c' = CHR ''-'') cs)"

definition CanonicalMIMEHeaderKey :: "string \<Rightarrow> string" where
  "CanonicalMIMEHeaderKey s =
     (if list_all validHeaderFieldByte s then canonicalMIMEHeaderKey True s else s)"

definition Header_Del :: "string \<Rightarrow> Header \<Rightarrow> Header" where
  "Header_Del key h = h(CanonicalMIMEHeaderKey key := None)"

definition Header_Set :: "string \<Rightarrow> string \<Rightarrow> Header \<Rightarrow> Header" where
  "Header_Set key v h = h(CanonicalMIMEHeaderKey key \<mapsto> [v])"

definition Header_Add :: "string \<Rightarrow> string \<Rightarrow> Header \<Rightarrow> Header" where
  "Header_Add key v h =
     h(CanonicalMIMEHeaderKey key \<mapsto>
         (case h (CanonicalMIMEHeaderKey key) of None \<Rightarrow> [v] | Some vs \<Rightarrow> vs @ [v]))"

text \<open>
  What the builder reaches through \<open>r.ctx\<close>: the header of the response writer
  (\<open>ctx.Res.Header()\<close>), the configured prefix of secure JSON
  (\<open>ctx.a.settings.SecureJSONPrefix\<close>) and the base directory of the application
  (\<open>ctx.a.BaseDir()\<close>). The Go field is a pointer; a reply is owned by one request, so
  the model keeps the context inside the reply and a header mutation updates it there.
\<close>

record Context =
  Res_Header :: Header
  SecureJSONPrefix :: string
  BaseDir :: string

text \<open>
  What \<open>File\<close> asks of its surroundings: whether a path is absolute and how two paths
  are joined (package \<open>path/filepath\<close>, which depends on the operating system), and
  whether a file is worth compressing (\<open>util.IsGzipWorthForFile\<close>, which looks at the file
  and is not part of reply.go). They are parameters of the model.
\<close>

record Env =
  filepath_IsAbs :: "string \<Rightarrow> bool"
  filepath_Join :: "string \<Rightarrow> string \<Rightarrow> string"
  IsGzipWorthForFile :: "string \<Rightarrow> bool"

subsection \<open>Renderers, cookies and the reply\<close>

text \<open>A compiled \<open>html/template\<close>, known by its name; the builder never executes it.\<close>

datatype Template = Template string

text \<open>
  The implementations of the interface \<open>Render\<close>, each with the fields of its struct in
  the order given here:
  \<open>textRender Format Values\<close>, \<open>jsonRender Data\<close>, \<open>jsonpRender Callback Data\<close>,
  \<open>secureJSONRender Prefix Data\<close>, \<open>xmlRender Data\<close>, \<open>binaryRender Path Reader\<close>
  (a nil reader is \<open>None\<close>), \<open>htmlRender Template Layout Filename ViewArgs\<close> (a nil
  template is \<open>None\<close>) and \<open>RenderFunc\<close>, the adapter for a function from the writer
  to an error.
\<close>

datatype Render =
    textRender string "iface list"
  | jsonRender iface
  | jsonpRender string iface
  | secureJSONRender string iface
  | xmlRender iface
  | binaryRender string "Reader option"
  | htmlRender "Template option" string string Data
  | RenderFunc "Writer \<Rightarrow> Writer \<times> go_error option"

text \<open>An \<open>http.Cookie\<close> by its name and value.\<close>

datatype http_Cookie = http_Cookie string string

text \<open>
  Modelled from the spec: the error object a handler attaches with \<open>Error\<close>
  (\<open>*aah.Error\<close>, declared outside reply.go), by its code and message.
\<close>

datatype aah_Error = aah_Error int string

text \<open>
  The struct \<open>Reply\<close>. Pointers and slices that may be nil are options: \<open>Rdr\<close>,
  \<open>body\<close>, \<open>cookies\<close> and \<open>err\<close>.
\<close>

record Reply =
  Rdr :: "Render option"
  Code :: int
  ContType :: string
  redirect :: bool
  "done" :: bool
  gzip :: bool
  path :: string
  ctx :: Context
  body :: "string option"
  cookies :: "http_Cookie list option"
  err :: "aah_Error option"

definition newReply :: "Context \<Rightarrow> Reply" where
  "newReply c =
     \<lparr>Rdr = None, Code = StatusOK, ContType = [], redirect = False, done = False,
      gzip = True, path = [], ctx = c, body = None, cookies = None, err = None\<rparr>"

subsection \<open>The builder methods\<close>

text \<open>
  A method \<open>func (r *Reply) M(args) *Reply\<close> mutates the reply and returns the same
  pointer; here it is a function from the arguments and the reply to the reply after
  the call, so \<open>r.A().B()\<close> is \<open>B (A r)\<close>.
\<close>

definition Status :: "int \<Rightarrow> Reply \<Rightarrow> Reply" where
  "Status code r = r\<lparr>Code := code\<rparr>"

definition Ok :: "Reply \<Rightarrow> Reply" where
  "Ok r = Status StatusOK r"

definition Created :: "Reply \<Rightarrow> Reply" where
  "Created r = Status StatusCreated r"

definition Accepted :: "Reply \<Rightarrow> Reply" where
  "Accepted r = Status StatusAccepted r"

definition NoContent :: "Reply \<Rightarrow> Reply" where
  "NoContent r = Status StatusNoContent r"

definition MovedPermanently :: "Reply \<Rightarrow> Reply" where
  "MovedPermanently r = Status StatusMovedPermanently r"

definition Found :: "Reply \<Rightarrow> Reply" where
  "Found r = Status StatusFound r"

definition TemporaryRedirect :: "Reply \<Rightarrow> Reply" where
  "TemporaryRedirect r = Status StatusTemporaryRedirect r"

definition BadRequest :: "Reply \<Rightarrow> Reply" where
  "BadRequest r = Status StatusBadRequest r"

definition Unauthorized :: "Reply \<Rightarrow> Reply" where
  "Unauthorized r = Status StatusUnauthorized r"

definition Forbidden :: "Reply \<Rightarrow> Reply" where
  "Forbidden r = Status StatusForbidden r"

definition NotFound :: "Reply \<Rightarrow> Reply" where
  "NotFound r = Status StatusNotFound r"

definition MethodNotAllowed :: "Reply \<Rightarrow> Reply" where
  "MethodNotAllowed r = Status StatusMethodNotAllowed r"

definition NotAcceptable :: "Reply \<Rightarrow> Reply" where
  "NotAcceptable r = Status StatusNotAcceptable r"

definition Conflict :: "Reply \<Rightarrow> Reply" where
  "Conflict r = Status StatusConflict r"

definition UnsupportedMediaType :: "Reply \<Rightarrow> Reply" where
  "UnsupportedMediaType r = Status StatusUnsupportedMediaType r"

definition InternalServerError :: "Reply \<Rightarrow> Reply" where
  "InternalServerError r = Status StatusInternalServerError r"

definition ServiceUnavailable :: "Reply \<Rightarrow> Reply" where
  "ServiceUnavailable r = Status StatusServiceUnavailable r"

definition ContentType :: "string \<Rightarrow> Reply \<Rightarrow> Reply" where
  "ContentType contentType r =
     (if length (ContType r) = 0 then r\<lparr>ContType := strings_ToLower contentType\<rparr> else r)"

definition Render :: "Render \<Rightarrow> Reply \<Rightarrow> Reply" where
  "Render rdr r = r\<lparr>Rdr := Some rdr\<rparr>"

definition JSON :: "iface \<Rightarrow> Reply \<Rightarrow> Reply" where
  "JSON data r = Render (jsonRender data) (ContentType ContentTypeJSON r)"

definition JSONSecure :: "iface \<Rightarrow> Reply \<Rightarrow> Reply" where
  "JSONSecure data r =
     (let r1 = ContentType ContentTypeJSON r
      in Render (secureJSONRender (SecureJSONPrefix (ctx r1)) data) r1)"

definition JSONP :: "iface \<Rightarrow> string \<Rightarrow> Reply \<Rightarrow> Reply" where
  "JSONP data callback r =
     Render (jsonpRender callback data) (ContentType ContentTypeJavascript r)"

definition XML :: "iface \<Rightarrow> Reply \<Rightarrow> Reply" where
  "XML data r = Render (xmlRender data) (ContentType ContentTypeXML r)"

definition Text :: "string \<Rightarrow> iface list \<Rightarrow> Reply \<Rightarrow> Reply" where
  "Text format values r =
     Render (textRender format values) (ContentType ContentTypePlainText r)"

definition FromReader :: "Reader \<Rightarrow> Reply \<Rightarrow> Reply" where
  "FromReader reader r = Render (binaryRender [] (Some reader)) r"

definition Binary :: "string \<Rightarrow> Reply \<Rightarrow> Reply" where
  "Binary b r = FromReader (bytes_NewReader b) r"

definition File :: "Env \<Rightarrow> string \<Rightarrow> Reply \<Rightarrow> Reply" where
  "File env file r =
     (let file1 = (if \<not> filepath_IsAbs env file
                   then filepath_Join env (BaseDir (ctx r)) file else file);
          r1 = r\<lparr>gzip := IsGzipWorthForFile env file1\<rparr>
      in Render (binaryRender file1 None) r1)"

definition Header :: "string \<Rightarrow> string \<Rightarrow> Reply \<Rightarrow> Reply" where
  "Header key v r =
     (if length v = 0
      then (if key = HeaderContentType then ContentType [] r
            else r\<lparr>ctx := (ctx r)\<lparr>Res_Header := Header_Del key (Res_Header (ctx r))\<rparr>\<rparr>)
      else (if key = HeaderContentType then ContentType v r
            else r\<lparr>ctx := (ctx r)\<lparr>Res_Header := Header_Set key v (Res_Header (ctx r))\<rparr>\<rparr>))"

definition HeaderAppend :: "string \<Rightarrow> string \<Rightarrow> Reply \<Rightarrow> Reply" where
  "HeaderAppend key v r =
     (if key = HeaderContentType then ContentType v r
      else r\<lparr>ctx := (ctx r)\<lparr>Res_Header := Header_Add key v (Res_Header (ctx r))\<rparr>\<rparr>)"

definition FileDownload :: "Env \<Rightarrow> string \<Rightarrow> string \<Rightarrow> Reply \<Rightarrow> Reply" where
  "FileDownload env file targetName r =
     File env file (Header HeaderContentDisposition (''attachment; filename='' @ targetName) r)"

definition FileInline :: "Env \<Rightarrow> string \<Rightarrow> string \<Rightarrow> Reply \<Rightarrow> Reply" where
  "FileInline env file targetName r =
     File env file (Header HeaderContentDisposition (''inline; filename='' @ targetName) r)"

definition HTMLlf :: "string \<Rightarrow> string \<Rightarrow> Data \<Rightarrow> Reply \<Rightarrow> Reply" where
  "HTMLlf layout filename data r =
     Render (htmlRender None layout filename data) (ContentType ContentTypeHTML r)"

definition HTML :: "Data \<Rightarrow> Reply \<Rightarrow> Reply" where
  "HTML data r = HTMLlf [] [] data r"

definition HTMLl :: "string \<Rightarrow> Data \<Rightarrow> Reply \<Rightarrow> Reply" where
  "HTMLl layout data r = HTMLlf layout [] data r"

definition HTMLf :: "string \<Rightarrow> Data \<Rightarrow> Reply \<Rightarrow> Reply" where
  "HTMLf filename data r = HTMLlf [] filename data r"

definition RedirectWithStatus :: "string \<Rightarrow> int \<Rightarrow> Reply \<Rightarrow> Reply" where
  "RedirectWithStatus redirectURL code r =
     (Status code (r\<lparr>redirect := True\<rparr>))\<lparr>path := redirectURL\<rparr>"

definition Redirect :: "string \<Rightarrow> Reply \<Rightarrow> Reply" where
  "Redirect redirectURL r = RedirectWithStatus redirectURL StatusFound r"

definition Error :: "aah_Error option \<Rightarrow> Reply \<Rightarrow> Reply" where
  "Error e r = r\<lparr>err := e\<rparr>"

definition Done :: "Reply \<Rightarrow> Reply" where
  "Done r = r\<lparr>done := True\<rparr>"

definition Cookie :: "http_Cookie \<Rightarrow> Reply \<Rightarrow> Reply" where
  "Cookie cookie r =
     (let cs = (case cookies r of None \<Rightarrow> [] | Some cs \<Rightarrow> cs)
      in r\<lparr>cookies := Some (cs @ [cookie])\<rparr>)"

definition DisableGzip :: "Reply \<Rightarrow> Reply" where
  "DisableGzip r = r\<lparr>gzip := False\<rparr>"

definition IsContentTypeSet :: "Reply \<Rightarrow> bool" where
  "IsContentTypeSet r = (length (ContType r) > 0)"

definition Body :: "Reply \<Rightarrow> string option" where
  "Body r = body r"

subsection \<open>Sequences of builder calls\<close>

text \<open>
  One constructor for each mutating method of the builder, with the method's arguments;
  \<open>call\<close> performs one call, \<open>calls\<close> a sequence of them from left to right.
\<close>

datatype builder_call =
    Status_call int
  | Ok_call
  | Created_call
  | Accepted_call
  | NoContent_call
  | MovedPermanently_call
  | Found_call
  | TemporaryRedirect_call
  | BadRequest_call
  | Unauthorized_call
  | Forbidden_call
  | NotFound_call
  | MethodNotAllowed_call
  | NotAcceptable_call
  | Conflict_call
  | UnsupportedMediaType_call
  | InternalServerError_call
  | ServiceUnavailable_call
  | ContentType_call string
  | JSON_call iface
  | JSONSecure_call iface
  | JSONP_call iface string
  | XML_call iface
  | Text_call string "iface list"
  | Binary_call string
  | FromReader_call Reader
  | File_call string
  | FileDownload_call string string
  | FileInline_call string string
  | HTML_call Data
  | HTMLl_call string Data
  | HTMLf_call string Data
  | HTMLlf_call string string Data
  | Redirect_call string
  | RedirectWithStatus_call string int
  | Error_call "aah_Error option"
  | Render_call Render
  | Header_call string string
  | HeaderAppend_call string string
  | Done_call
  | Cookie_call http_Cookie
  | DisableGzip_call

fun call :: "Env \<Rightarrow> builder_call \<Rightarrow> Reply \<Rightarrow> Reply" where
  "call env (Status_call code) r = Status code r"
| "call env Ok_call r = Ok r"
| "call env Created_call r = Created r"
| "call env Accepted_call r = Accepted r"
| "call env NoContent_call r = NoContent r"
| "call env MovedPermanently_call r = MovedPermanently r"
| "call env Found_call r = Found r"
| "call env TemporaryRedirect_call r = TemporaryRedirect r"
| "call env BadRequest_call r = BadRequest r"
| "call env Unauthorized_call r = Unauthorized r"
| "call env Forbidden_call r = Forbidden r"
| "call env NotFound_call r = NotFound r"
| "call env MethodNotAllowed_call r = MethodNotAllowed r"
| "call env NotAcceptable_call r = NotAcceptable r"
| "call env Conflict_call r = Conflict r"
| "call env UnsupportedMediaType_call r = UnsupportedMediaType r"
| "call env InternalServerError_call r = InternalServerError r"
| "call env ServiceUnavailable_call r = ServiceUnavailable r"
| "call env (ContentType_call v) r = ContentType v r"
| "call env (JSON_call d) r = JSON d r"
| "call env (JSONSecure_call d) r = JSONSecure d r"
| "call env (JSONP_call d cb) r = JSONP d cb r"
| "call env (XML_call d) r = XML d r"
| "call env (Text_call f vs) r = Text f vs r"
| "call env (Binary_call b) r = Binary b r"
| "call env (FromReader_call rd) r = FromReader rd r"
| "call env (File_call f) r = File env f r"
| "call env (FileDownload_call f n) r = FileDownload env f n r"
| "call env (FileInline_call f n) r = FileInline env f n r"
| "call env (HTML_call d) r = HTML d r"
| "call env (HTMLl_call l d) r = HTMLl l d r"
| "call env (HTMLf_call f d) r = HTMLf f d r"
| "call env (HTMLlf_call l f d) r = HTMLlf l f d r"
| "call env (Redirect_call u) r = Redirect u r"
| "call env (RedirectWithStatus_call u c) r = RedirectWithStatus u c r"
| "call env (Error_call e) r = Error e r"
| "call env (Render_call rdr) r = Render rdr r"
| "call env (Header_call k v) r = Header k v r"
| "call env (HeaderAppend_call k v) r = HeaderAppend k v r"
| "call env Done_call r = Done r"
| "call env (Cookie_call c) r = Cookie c r"
| "call env DisableGzip_call r = DisableGzip r"

fun calls :: "Env \<Rightarrow> builder_call list \<Rightarrow> Reply \<Rightarrow> Reply" where
  "calls env [] r = r"
| "calls env (c # cs) r = calls env cs (call env c r)"

text \<open>The calls that reach \<open>File\<close>, the one method that assigns the gzip flag a computed value.\<close>

fun is_File_call :: "builder_call \<Rightarrow> bool" where
  "is_File_call (File_call f) = True"
| "is_File_call (FileDownload_call f n) = True"
| "is_File_call (FileInline_call f n) = True"
| "is_File_call c = False"

section \<open>The renderers\<close>

subsection \<open>Formatting values: \<open>strconv\<close>, \<open>fmt\<close>, \<open>strings\<close>\<close>

fun nat_digits :: "nat \<Rightarrow> string" where
  "nat_digits n =
     (if n < 10 then [char_of (48 + n)] else nat_digits (n div 10) @ [char_of (48 + n mod 10)])"

definition strconv_Itoa :: "int \<Rightarrow> string" where
  "strconv_Itoa i = (if i < 0 then CHR ''-'' # nat_digits (nat (- i)) else nat_digits (nat i))"

fun strings_Join :: "string list \<Rightarrow> string \<Rightarrow> string" where
  "strings_Join [] sep = []"
| "strings_Join [x] sep = x"
| "strings_Join (x # y # ys) sep = x @ sep @ strings_Join (y # ys) sep"

text \<open>
  \<open>fmt.Sprintf("%v", v)\<close>, the default format of a value. A map is printed with its
  keys in increasing order.
\<close>

fun fmt_Sprint_v :: "iface \<Rightarrow> string" where
  "fmt_Sprint_v VNil = ''<nil>''"
| "fmt_Sprint_v (VBool b) = (if b then ''true'' else ''false'')"
| "fmt_Sprint_v (VInt i) = strconv_Itoa i"
| "fmt_Sprint_v (VString s) = s"
| "fmt_Sprint_v VNaN = ''NaN''"
| "fmt_Sprint_v (VData d) =
     ''map['' @
     strings_Join
       (map (\<lambda>(k, s). k @ '':'' @ s) (sort_key fst (map (\<lambda>(k, v). (k, fmt_Sprint_v v)) d)))
       '' '' @
     '']''"

text \<open>
  \<open>strings.Title\<close>: the first letter of each word in upper case. A byte that is not an
  ASCII letter, digit or underscore separates words; bytes from 128 on are read as parts
  of letters and kept.
\<close>

definition isSeparator :: "char \<Rightarrow> bool" where
  "isSeparator c =
     (let n = (of_char c :: nat) in
        \<not> ((48 \<le> n \<and> n \<le> 57) \<or> (65 \<le> n \<and> n \<le> 90) \<or> (97 \<le> n \<and> n \<le> 122) \<or>
           n = 95 \<or> 128 \<le> n))"

fun Title_from :: "char \<Rightarrow> string \<Rightarrow> string" where
  "Title_from prev [] = []"
| "Title_from prev (c # cs) =
     (if isSeparator prev then toUpper_byte c else c) # Title_from c cs"

definition strings_Title :: "string \<Rightarrow> string" where
  "strings_Title s = Title_from (CHR '' '') s"

subsection \<open>\<open>encoding/json\<close>\<close>

text \<open>
  \<open>json.Marshal\<close> on the values of \<open>iface\<close>: compact output, the keys of a map in
  increasing order, strings quoted with the escapes of the encoder (HTML-safe: the bytes
  of \<open><\<close>, \<open>>\<close> and \<open>&\<close> become \<open>\u003c\<close>, \<open>\u003e\<close> and \<open>\u0026\<close>; control
  bytes other than newline, carriage return and tab become \<open>\u00XX\<close>, as they do up
  to Go 1.21; later versions shorten two of them to \<open>\b\<close> and \<open>\f\<close>). The first value
  that cannot be encoded, in the order of encoding, gives the error. Bytes from 128 on
  are copied.
\<close>

definition hexdigit :: "nat \<Rightarrow> char" where
  "hexdigit n = ''0123456789abcdef'' ! (n mod 16)"

definition json_escape_byte :: "char \<Rightarrow> string" where
  "json_escape_byte c =
     (let n = (of_char c :: nat) in
      if n = 0x22 \<or> n = 0x5C then [CHR 0x5C, c]
      else if n = 0x0A then [CHR 0x5C, CHR ''n'']
      else if n = 0x0D then [CHR 0x5C, CHR ''r'']
      else if n = 0x09 then [CHR 0x5C, CHR ''t'']
      else if n < 0x20 \<or> n = 0x3C \<or> n = 0x3E \<or> n = 0x26
      then [CHR 0x5C, CHR ''u'', CHR ''0'', CHR ''0'', hexdigit (n div 16), hexdigit (n mod 16)]
      else [c])"

definition json_string :: "string \<Rightarrow> string" where
  "json_string s = [CHR 0x22] @ concat (map json_escape_byte s) @ [CHR 0x22]"

fun first_error :: "(go_error + 'a) list \<Rightarrow> go_error + 'a list" where
  "first_error [] = Inr []"
| "first_error (Inl e # xs) = Inl e"
| "first_error (Inr x # xs) =
     (case first_error xs of Inl e \<Rightarrow> Inl e | Inr ys \<Rightarrow> Inr (x # ys))"

fun json_Marshal :: "iface \<Rightarrow> go_error + string" where
  "json_Marshal VNil = Inr ''null''"
| "json_Marshal (VBool b) = Inr (if b then ''true'' else ''false'')"
| "json_Marshal (VInt i) = Inr (strconv_Itoa i)"
| "json_Marshal (VString s) = Inr (json_string s)"
| "json_Marshal VNaN = Inl (UnsupportedValueError ''NaN'')"
| "json_Marshal (VData d) =
     (case first_error
             (map (\<lambda>(k, m). case m of Inl e \<Rightarrow> Inl e
                              | Inr js \<Rightarrow> Inr (json_string k @ '':'' @ js))
                (sort_key fst (map (\<lambda>(k, v). (k, json_Marshal v)) d))) of
        Inl e \<Rightarrow> Inl e
      | Inr ms \<Rightarrow> Inr (''{'' @ strings_Join ms '','' @ ''}''))"

text \<open>
  \<open>json.NewEncoder(w).Encode(v)\<close>: the marshalled value and a newline, in one write;
  nothing is written when the value cannot be encoded.
\<close>

definition json_Encode :: "Writer \<Rightarrow> iface \<Rightarrow> Writer \<times> go_error option" where
  "json_Encode w v =
     (case json_Marshal v of
        Inl e \<Rightarrow> (w, Some e)
      | Inr js \<Rightarrow> (case Write (js @ [CHR 0x0A]) w of (w', n, e) \<Rightarrow> (w', e)))"

subsection \<open>\<open>encoding/xml\<close>: tokens and the encoder\<close>

datatype xml_Name = xml_Name (Space: string) (Local: string)

text \<open>An attribute without a name space: its local name and its value.\<close>

datatype xml_Attr = xml_Attr string string

datatype StartElement = StartElement (Name: xml_Name) (Attr: "xml_Attr list")

datatype Token =
    StartToken StartElement
  | EndElement xml_Name
  | CharData string

text \<open>
  The escape table of \<open>escapeText\<close> and \<open>EscapeString\<close>: the five XML entities, tab,
  carriage return and, on request, newline as character references; any other control
  byte becomes U+FFFD. \<open>None\<close> is a byte that is copied as it is; bytes from 128 on are
  copied.
\<close>

definition xml_escape :: "bool \<Rightarrow> char \<Rightarrow> string option" where
  "xml_escape escapeNewline c =
     (let n = (of_char c :: nat) in
      if n = 0x22 then Some ''&#34;''
      else if n = 0x27 then Some ''&#39;''
      else if n = 0x26 then Some ''&amp;''
      else if n = 0x3C then Some ''&lt;''
      else if n = 0x3E then Some ''&gt;''
      else if n = 0x09 then Some ''&#x9;''
      else if n = 0x0A then (if escapeNewline then Some ''&#xA;'' else None)
      else if n = 0x0D then Some ''&#xD;''
      else if n < 0x20 then Some [CHR 0xEF, CHR 0xBF, CHR 0xBD]
      else None)"

text \<open>
  An \<open>xml.Encoder\<close> as \<open>xml.NewEncoder\<close> makes it (no indentation). Its printer writes
  through a \<open>bufio.Writer\<close> of the default size, 4096 bytes: \<open>buf\<close> holds the bytes that
  wait in that buffer, \<open>werr\<close> is the error the buffered writer has met (once set, every
  further byte is dropped and the error is what \<open>cachedWriteError\<close> reports), \<open>wr\<close> is
  the sink under it and \<open>tags\<close> the stack of open elements, the innermost last.
\<close>

record Encoder =
  buf :: string
  werr :: "go_error option"
  wr :: Writer
  tags :: "xml_Name list"

definition defaultBufSize :: nat where
  "defaultBufSize = 4096"

definition xml_NewEncoder :: "Writer \<Rightarrow> Encoder" where
  "xml_NewEncoder w = \<lparr>buf = [], werr = None, wr = w, tags = []\<rparr>"

definition Available :: "Encoder \<Rightarrow> nat" where
  "Available e = defaultBufSize - length (buf e)"

text \<open>
  \<open>bufio.Writer.Flush\<close>: nothing to do after an error or on an empty buffer; otherwise
  one write of the buffer to the sink. When that write fails, the bytes the sink has
  not taken stay in the buffer and the error is kept.
\<close>

definition Flush :: "Encoder \<Rightarrow> Encoder \<times> go_error option" where
  "Flush e =
     (case werr e of
        Some x \<Rightarrow> (e, Some x)
      | None \<Rightarrow>
          if buf e = [] then (e, None)
          else (case Write (buf e) (wr e) of
                  (w', n, None) \<Rightarrow> (e\<lparr>buf := [], wr := w'\<rparr>, None)
                | (w', n, Some x) \<Rightarrow>
                    (e\<lparr>buf := drop n (buf e), werr := Some x, wr := w'\<rparr>, Some x)))"

text \<open>\<open>bufio.Writer.WriteByte\<close>: a full buffer is flushed first.\<close>

definition bufio_WriteByte :: "char \<Rightarrow> Encoder \<Rightarrow> Encoder" where
  "bufio_WriteByte c e =
     (if werr e \<noteq> None then e
      else if Available e \<le> 0
      then (case Flush e of
              (e1, Some x) \<Rightarrow> e1
            | (e1, None) \<Rightarrow> e1\<lparr>buf := buf e1 @ [c]\<rparr>)
      else e\<lparr>buf := buf e @ [c]\<rparr>)"

text \<open>
  The loop of \<open>bufio.Writer.Write\<close> and \<open>bufio.Writer.WriteString\<close>: while the bytes do
  not fit in the free part of the buffer and no error has been met, \<open>Write\<close> hands them
  to the sink at once when the buffer is empty, and otherwise the buffer is filled up
  and flushed; what is left at the end is copied into the buffer. \<open>direct\<close> tells the two
  apart: \<open>WriteString\<close> always goes through the buffer, the sink being an \<open>io.Writer\<close>
  of which no \<open>WriteString\<close> method is known. The loop ends because each round either
  meets an error, or takes bytes from \<open>p\<close>, or empties a full buffer.
\<close>

function bufio_write :: "bool \<Rightarrow> string \<Rightarrow> Encoder \<Rightarrow> Encoder" where
  "bufio_write direct p e =
     (if length p > Available e \<and> werr e = None
      then (if direct \<and> buf e = []
            then (case Write p (wr e) of
                    (w', n, r) \<Rightarrow> bufio_write direct (drop n p) (e\<lparr>werr := r, wr := w'\<rparr>))
            else bufio_write direct (drop (Available e) p)
                   (fst (Flush (e\<lparr>buf := buf e @ take (Available e) p\<rparr>))))
      else if werr e \<noteq> None then e
      else e\<lparr>buf := buf e @ p\<rparr>)"
  by pat_completeness auto
termination
proof (relation "measures [\<lambda>(d, p, e). if werr e = None then 1 else 0,
                           \<lambda>(d, p, e). length p, \<lambda>(d, p, e). length (buf e)]")
  show "wf (measures [\<lambda>(d, p, e). if werr e = None then 1 else 0,
                      \<lambda>(d, p, e). length p, \<lambda>(d, p, e). length (buf e :: string)])"
    by simp
next
  fix direct :: bool and p :: string and e :: Encoder and w' y n r
  assume c: "Available e < length p \<and> werr e = None" and d: "direct \<and> buf e = []"
    and x: "(w', y) = Write p (wr e)" "(n, r) = y"
  have W: "Write p (wr e) = (w', n, r)" using x by simp
  have "r = None \<Longrightarrow> n = length p"
    using W by (auto simp: Write_def split: option.splits if_splits)
  moreover have "p \<noteq> []" using c by auto
  ultimately show "((direct, drop n p, e\<lparr>werr := r, wr := w'\<rparr>), direct, p, e)
      \<in> measures [\<lambda>(d, p, e). if werr e = None then 1 else 0,
                   \<lambda>(d, p, e). length p, \<lambda>(d, p, e). length (buf e)]"
    using c by (cases r) auto
next
  fix direct :: bool and p :: string and e :: Encoder
  assume c: "Available e < length p \<and> werr e = None" and d: "\<not> (direct \<and> buf e = [])"
  let ?e0 = "e\<lparr>buf := buf e @ take (Available e) p\<rparr>"
  have ne: "buf ?e0 \<noteq> []"
  proof (cases "buf e = []")
    case True
    then have "Available e = defaultBufSize" by (simp add: Available_def)
    moreover have "p \<noteq> []" using c by auto
    ultimately show ?thesis by (simp add: defaultBufSize_def)
  qed simp
  obtain w' n r where W: "Write (buf ?e0) (wr e) = (w', n, r)"
    by (cases "Write (buf ?e0) (wr e)")
  show "((direct, drop (Available e) p, fst (Flush ?e0)), direct, p, e)
      \<in> measures [\<lambda>(d, p, e). if werr e = None then 1 else 0,
                   \<lambda>(d, p, e). length p, \<lambda>(d, p, e). length (buf e)]"
  proof (cases r)
    case (Some x)
    then show ?thesis
      using c ne W by (auto simp: Flush_def)
  next
    case None
    then have F: "Flush ?e0 = (?e0\<lparr>buf := [], wr := w'\<rparr>, None)"
      using c ne W by (auto simp: Flush_def)
    show ?thesis
    proof (cases "Available e = 0")
      case True
      then have "buf e \<noteq> []" by (auto simp: Available_def defaultBufSize_def)
      then show ?thesis using c F True by simp
    next
      case False
      then show ?thesis using c F by auto
    qed
  qed
qed

declare bufio_write.simps [simp del]

definition bufio_Write :: "string \<Rightarrow> Encoder \<Rightarrow> Encoder" where
  "bufio_Write p e = bufio_write True p e"

definition bufio_WriteString :: "string \<Rightarrow> Encoder \<Rightarrow> Encoder" where
  "bufio_WriteString s e = bufio_write False s e"

text \<open>
  \<open>escapeText(w, s, escapeNewline)\<close>, the printer being the writer: \<open>run\<close> is the
  stretch of plain bytes since the last escape (\<open>s[last:i]\<close>). At a byte with an escape
  the stretch is written and then the escape; at the end the last stretch is written.
  The function returns at the first write that fails; as the buffered writer drops
  every byte after an error, going on has the same effect.
\<close>

fun escapeText_from :: "bool \<Rightarrow> string \<Rightarrow> string \<Rightarrow> Encoder \<Rightarrow> Encoder" where
  "escapeText_from escapeNewline run [] e = bufio_Write run e"
| "escapeText_from escapeNewline run (c # cs) e =
     (case xml_escape escapeNewline c of
        None \<Rightarrow> escapeText_from escapeNewline (run @ [c]) cs e
      | Some esc \<Rightarrow> escapeText_from escapeNewline [] cs (bufio_Write esc (bufio_Write run e)))"

definition escapeText :: "bool \<Rightarrow> string \<Rightarrow> Encoder \<Rightarrow> Encoder" where
  "escapeText escapeNewline s e = escapeText_from escapeNewline [] s e"

text \<open>
  \<open>printer.EscapeString\<close>: the same loop on a string, with the newline escaped; the
  stretches go through \<open>WriteString\<close>, the escapes through \<open>Write\<close>.
\<close>

fun EscapeString_from :: "string \<Rightarrow> string \<Rightarrow> Encoder \<Rightarrow> Encoder" where
  "EscapeString_from run [] e = bufio_WriteString run e"
| "EscapeString_from run (c # cs) e =
     (case xml_escape True c of
        None \<Rightarrow> EscapeString_from (run @ [c]) cs e
      | Some esc \<Rightarrow> EscapeString_from [] cs (bufio_Write esc (bufio_WriteString run e)))"

definition EscapeString :: "string \<Rightarrow> Encoder \<Rightarrow> Encoder" where
  "EscapeString s e = EscapeString_from [] s e"

text \<open>
  The writes of \<open>printer.writeStart\<close> after its check: \<open><\<close>, the local name, the name
  space as an \<open>xmlns\<close> attribute if there is one, the attributes with a name (the body
  of the loop over \<open>start.Attr\<close> is \<open>write_attr\<close>) and \<open>>\<close>. The writes of
  \<open>printer.writeEnd\<close>: \<open><\<close>, \<open>/\<close>, the local name and \<open>>\<close>.
\<close>

definition write_attr :: "xml_Attr \<Rightarrow> Encoder \<Rightarrow> Encoder" where
  "write_attr a e =
     (case a of xml_Attr name v \<Rightarrow>
        if name = [] then e
        else bufio_WriteByte (CHR 0x22)
               (EscapeString v
                  (bufio_WriteString [CHR ''='', CHR 0x22]
                     (bufio_WriteString name (bufio_WriteByte (CHR '' '') e)))))"

definition write_xmlns :: "string \<Rightarrow> Encoder \<Rightarrow> Encoder" where
  "write_xmlns space e =
     (if space \<noteq> []
      then bufio_WriteByte (CHR 0x22)
             (EscapeString space (bufio_WriteString ('' xmlns='' @ [CHR 0x22]) e))
      else e)"

definition write_start_tag :: "StartElement \<Rightarrow> Encoder \<Rightarrow> Encoder" where
  "write_start_tag start e =
     bufio_WriteByte (CHR ''>'')
       (fold write_attr (Attr start)
          (write_xmlns (Space (Name start))
             (bufio_WriteString (Local (Name start)) (bufio_WriteByte (CHR ''<'') e))))"

definition write_end_tag :: "xml_Name \<Rightarrow> Encoder \<Rightarrow> Encoder" where
  "write_end_tag name e =
     bufio_WriteByte (CHR ''>'')
       (bufio_WriteString (Local name)
          (bufio_WriteByte (CHR ''/'') (bufio_WriteByte (CHR ''<'') e)))"

text \<open>
  \<open>writeStart\<close> refuses a start element without a name and otherwise pushes the name
  and writes the tag; \<open>writeEnd\<close> refuses an end element without a name or one that
  does not close the innermost open element, and otherwise pops the name and writes
  the tag. Neither looks at the result of its writes.
\<close>

definition writeStart :: "StartElement \<Rightarrow> Encoder \<Rightarrow> Encoder \<times> go_error option" where
  "writeStart start e =
     (if Local (Name start) = [] then (e, Some (errorString ''xml: start tag with no name''))
      else (write_start_tag start (e\<lparr>tags := tags e @ [Name start]\<rparr>), None))"

definition writeEnd :: "xml_Name \<Rightarrow> Encoder \<Rightarrow> Encoder \<times> go_error option" where
  "writeEnd name e =
     (if Local name = [] then (e, Some (errorString ''xml: end tag with no name''))
      else if tags e = [] \<or> Local (last (tags e)) = []
      then (e, Some (errorString (''xml: end tag </'' @ Local name @ ''> without start tag'')))
      else if last (tags e) \<noteq> name
      then (if Local (last (tags e)) \<noteq> Local name
            then (e, Some (errorString (''xml: end tag </'' @ Local name @
                    ''> does not match start tag <'' @ Local (last (tags e)) @ ''>'')))
            else (e, Some (errorString (''xml: end tag </'' @ Local name @ ''> in namespace '' @
                    Space name @ '' does not match start tag <'' @ Local (last (tags e)) @
                    ''> in namespace '' @ Space (last (tags e))))))
      else (write_end_tag name (e\<lparr>tags := butlast (tags e)\<rparr>), None))"

text \<open>
  \<open>Encoder.EncodeToken\<close>: the token is written, and the result is the error of the
  check or else \<open>cachedWriteError\<close>, the error of the buffered writer. So a sink that
  fails while a token is written makes this very call return the error.
\<close>

definition EncodeToken :: "Token \<Rightarrow> Encoder \<Rightarrow> Encoder \<times> go_error option" where
  "EncodeToken t e =
     (case t of
        StartToken start \<Rightarrow>
          (case writeStart start e of
             (e', Some x) \<Rightarrow> (e', Some x)
           | (e', None) \<Rightarrow> (e', werr e'))
      | EndElement name \<Rightarrow>
          (case writeEnd name e of
             (e', Some x) \<Rightarrow> (e', Some x)
           | (e', None) \<Rightarrow> (e', werr e'))
      | CharData s \<Rightarrow>
          (let e' = escapeText False s e in (e', werr e')))"

subsection \<open>\<open>Data.MarshalXML\<close>\<close>

text \<open>
  The tokens of the entries, three for each entry in the order of the \<open>range\<close> loop
  (the body of the first loop of \<open>MarshalXML\<close>).
\<close>

fun entry_tokens :: "Data \<Rightarrow> Token list" where
  "entry_tokens [] = []"
| "entry_tokens ((k, v) # d) =
     [StartToken (StartElement (xml_Name [] (strings_Title k)) []),
      CharData (fmt_Sprint_v v),
      EndElement (xml_Name [] (strings_Title k))] @ entry_tokens d"

definition Data_tokens :: "Data \<Rightarrow> StartElement \<Rightarrow> Token list" where
  "Data_tokens d start = [StartToken start] @ entry_tokens d @ [EndElement (Name start)]"

text \<open>The second loop: it stops at the first token the encoder refuses.\<close>

fun EncodeTokens :: "Token list \<Rightarrow> Encoder \<Rightarrow> Encoder \<times> go_error option" where
  "EncodeTokens [] e = (e, None)"
| "EncodeTokens (t # ts) e =
     (case EncodeToken t e of
        (e', Some x) \<Rightarrow> (e', Some x)
      | (e', None) \<Rightarrow> EncodeTokens ts e')"

definition MarshalXML :: "Data \<Rightarrow> Encoder \<Rightarrow> StartElement \<Rightarrow> Encoder \<times> go_error option" where
  "MarshalXML d e start =
     (case EncodeTokens (Data_tokens d start) e of
        (e', Some x) \<Rightarrow> (e', Some x)
      | (e', None) \<Rightarrow> Flush e')"

subsection \<open>\<open>Encoder.Encode\<close> and \<open>xml.Marshal\<close>\<close>

text \<open>
  A value of a simple kind is an element named after its type around its text, which
  \<open>EscapeString\<close> writes (\<open>marshalSimple\<close> is that branch of \<open>marshalValue\<close>). A
  \<open>Data\<close> is an \<open>xml.Marshaler\<close>: the encoder puts a mark (the empty name) on its
  stack, calls \<open>MarshalXML\<close> with the start element \<open>Data\<close>, checks that the method has
  closed what it opened and drops the mark. The nil interface encodes to nothing.
\<close>

definition marshalSimple :: "string \<Rightarrow> string \<Rightarrow> Encoder \<Rightarrow> Encoder \<times> go_error option" where
  "marshalSimple name s e =
     (case writeStart (StartElement (xml_Name [] name) []) e of
        (e1, Some x) \<Rightarrow> (e1, Some x)
      | (e1, None) \<Rightarrow>
          (case writeEnd (xml_Name [] name) (EscapeString s e1) of
             (e2, Some x) \<Rightarrow> (e2, Some x)
           | (e2, None) \<Rightarrow> (e2, werr e2)))"

definition marshalInterface :: "Data \<Rightarrow> Encoder \<Rightarrow> Encoder \<times> go_error option" where
  "marshalInterface d e =
     (let e1 = e\<lparr>tags := tags e @ [xml_Name [] []]\<rparr>;
          n = length (tags e1)
      in case MarshalXML d e1 (StartElement (xml_Name [] ''Data'') []) of
           (e2, Some x) \<Rightarrow> (e2, Some x)
         | (e2, None) \<Rightarrow>
             if length (tags e2) > n
             then (e2, Some (errorString (''xml: aah.Data.MarshalXML wrote invalid XML: <'' @
                     Local (last (tags e2)) @ ''> not closed'')))
             else (e2\<lparr>tags := take (n - 1) (tags e2)\<rparr>, None))"

fun marshalValue :: "iface \<Rightarrow> Encoder \<Rightarrow> Encoder \<times> go_error option" where
  "marshalValue VNil e = (e, None)"
| "marshalValue (VBool b) e = marshalSimple ''bool'' (if b then ''true'' else ''false'') e"
| "marshalValue (VInt i) e = marshalSimple ''int'' (strconv_Itoa i) e"
| "marshalValue (VString s) e = marshalSimple ''string'' s e"
| "marshalValue VNaN e = marshalSimple ''float64'' ''NaN'' e"
| "marshalValue (VData d) e = marshalInterface d e"

definition xml_Encode :: "iface \<Rightarrow> Encoder \<Rightarrow> Encoder \<times> go_error option" where
  "xml_Encode v e =
     (case marshalValue v e of
        (e', Some x) \<Rightarrow> (e', Some x)
      | (e', None) \<Rightarrow> Flush e')"

definition bytes_Buffer :: Writer where
  "bytes_Buffer = \<lparr>written = [], room = None\<rparr>"

definition xml_Marshal :: "iface \<Rightarrow> go_error + string" where
  "xml_Marshal v =
     (case xml_Encode v (xml_NewEncoder bytes_Buffer) of
        (e, Some x) \<Rightarrow> Inl x
      | (e, None) \<Rightarrow> Inr (written (wr e)))"

subsection \<open>The \<open>Render\<close> methods\<close>

text \<open>
  \<open>Render(w io.Writer) error\<close> becomes a function from the writer to the writer after
  the call and the error. Embedded are the renderers for JSON, JSONP, secure JSON, XML
  and binary content; the text and HTML renderers hand their work to \<open>fmt.Fprintf\<close>
  and \<open>html/template\<close>.
\<close>

definition jsonRender_Render :: "iface \<Rightarrow> Writer \<Rightarrow> Writer \<times> go_error option" where
  "jsonRender_Render data w = json_Encode w data"

text \<open>\<open>fmt.Fprintf(w, "%s(%s);", callback, jsonBytes)\<close> formats and writes once.\<close>

definition jsonpRender_Render :: "string \<Rightarrow> iface \<Rightarrow> Writer \<Rightarrow> Writer \<times> go_error option" where
  "jsonpRender_Render callback data w =
     (case json_Marshal data of
        Inl e \<Rightarrow> (w, Some e)
      | Inr jsonBytes \<Rightarrow>
          if length callback = 0
          then (case Write jsonBytes w of (w', n, e) \<Rightarrow> (w', e))
          else (case Write (callback @ ''('' @ jsonBytes @ '');'') w of (w', n, e) \<Rightarrow> (w', e)))"

definition secureJSONRender_Render :: "string \<Rightarrow> iface \<Rightarrow> Writer \<Rightarrow> Writer \<times> go_error option" where
  "secureJSONRender_Render prefix data w =
     (case Write prefix w of
        (w1, n, Some e) \<Rightarrow> (w1, Some e)
      | (w1, n, None) \<Rightarrow> json_Encode w1 data)"

definition xmlHeaderBytes :: string where
  "xmlHeaderBytes =
     ''<?xml version='' @ [CHR 0x22] @ ''1.0'' @ [CHR 0x22] @ '' encoding='' @ [CHR 0x22] @
     ''UTF-8'' @ [CHR 0x22] @ ''?>'' @ [CHR 0x0A]"

definition xmlRender_Render :: "iface \<Rightarrow> Writer \<Rightarrow> Writer \<times> go_error option" where
  "xmlRender_Render data w =
     (case Write xmlHeaderBytes w of
        (w1, n, Some e) \<Rightarrow> (w1, Some e)
      | (w1, n, None) \<Rightarrow>
          (case xml_Encode data (xml_NewEncoder w1) of (e', r) \<Rightarrow> (wr e', r)))"

text \<open>
  The file system as \<open>os.Open\<close> sees it: a path opens to a file or fails. An open file
  answers \<open>Stat\<close> with its \<open>FileInfo\<close> or an error, and reads as a \<open>Reader\<close>.
\<close>

record FileInfo =
  IsDir :: bool
  Size :: nat

record os_File =
  Stat :: "go_error + FileInfo"
  content :: Reader

type_synonym FileSystem = "string \<Rightarrow> go_error + os_File"

text \<open>
  The deferred \<open>ess.CloseQuietly\<close> closes the reader or the file and drops the error of
  closing; it changes neither the writer nor the result.
\<close>

definition binaryRender_Render ::
  "FileSystem \<Rightarrow> string \<Rightarrow> Reader option \<Rightarrow> Writer \<Rightarrow> Writer \<times> go_error option" where
  "binaryRender_Render os_Open Path Reader w =
     (case Reader of
        Some rd \<Rightarrow> (case io_Copy w rd of (w', n, e) \<Rightarrow> (w', e))
      | None \<Rightarrow>
          (case os_Open Path of
             Inl e \<Rightarrow> (w, Some e)
           | Inr file \<Rightarrow>
               (case Stat file of
                  Inl e \<Rightarrow> (w, Some e)
                | Inr fi \<Rightarrow>
                    if IsDir fi
                    then (w, Some (errorString ([CHR 0x27] @ Path @ [CHR 0x27] @ '' is a directory'')))
                    else (case io_Copy w (content file) of (w', n, e) \<Rightarrow> (w', e)))))"

section \<open>The text of tokens and the mapper as the spec words it\<close>

text \<open>
  The bytes of a text after escaping, of a start tag and of an end tag, as one string:
  what the writes of \<open>escapeText\<close>, \<open>writeStart\<close> and \<open>writeEnd\<close> add up to.
\<close>

definition xml_escaped :: "bool \<Rightarrow> string \<Rightarrow> string" where
  "xml_escaped escapeNewline s =
     concat (map (\<lambda>c. case xml_escape escapeNewline c of None \<Rightarrow> [c] | Some esc \<Rightarrow> esc) s)"

definition attr_text :: "xml_Attr \<Rightarrow> string" where
  "attr_text a =
     (case a of xml_Attr name v \<Rightarrow>
        if name = [] then []
        else '' '' @ name @ [CHR ''='', CHR 0x22] @ xml_escaped True v @ [CHR 0x22])"

definition start_text :: "StartElement \<Rightarrow> string" where
  "start_text start =
     ''<'' @ Local (Name start) @
     (if Space (Name start) \<noteq> []
      then '' xmlns='' @ [CHR 0x22] @ xml_escaped True (Space (Name start)) @ [CHR 0x22]
      else []) @
     concat (map attr_text (Attr start)) @ ''>''"

definition end_text :: "xml_Name \<Rightarrow> string" where
  "end_text name = ''</'' @ Local name @ ''>''"

text \<open>
  Following the spec's words (section 4.4), to be compared with \<open>MarshalXML\<close>: for each
  entry an element named by the title-cased key around the value's default string form
  as character data, all of them inside the start and end element the caller supplies.
\<close>

definition spec_entry_xml :: "string \<times> iface \<Rightarrow> string" where
  "spec_entry_xml kv =
     ''<'' @ strings_Title (fst kv) @ ''>'' @ xml_escaped False (fmt_Sprint_v (snd kv)) @
     ''</'' @ strings_Title (fst kv) @ ''>''"

definition spec_Data_xml :: "Data \<Rightarrow> StartElement \<Rightarrow> string" where
  "spec_Data_xml d start = start_text start @ concat (map spec_entry_xml d) @ end_text (Name start)"

text \<open>
  What an encoder has emitted: the bytes its sink has taken followed by the bytes that
  wait in its buffer. A step of the encoder \<open>emits\<close> a text when it leaves the stack
  alone, when a state without a write error after the step means that there was none
  before and that the text has been added to what was emitted, and when on a sink that
  accepts every write it meets no error.
\<close>

definition emitted :: "Encoder \<Rightarrow> string" where
  "emitted e = written (wr e) @ buf e"

definition emits :: "(Encoder \<Rightarrow> Encoder) \<Rightarrow> string \<Rightarrow> bool" where
  "emits f p =
     (\<forall>e. tags (f e) = tags e \<and>
          (werr (f e) = None \<longrightarrow> werr e = None \<and> emitted (f e) = emitted e @ p) \<and>
          (werr e = None \<and> room (wr e) = None \<longrightarrow> werr (f e) = None \<and> room (wr (f e)) = None))"

text \<open>
  Two encoders that have produced the same output so far, the second one into a buffer:
  neither has met a write error, their stacks agree, and what the first has emitted is
  \<open>pre\<close> followed by what the second has emitted.
\<close>

definition same_output :: "string \<Rightarrow> Encoder \<Rightarrow> Encoder \<Rightarrow> bool" where
  "same_output pre a b =
     (werr a = None \<and> werr b = None \<and> tags a = tags b \<and> room (wr b) = None \<and>
      emitted a = pre @ emitted b)"

section \<open>Concrete inputs\<close>

text \<open>
  A context, a Unix-like environment in which one style sheet is worth compressing, and
  a file system with a directory and that file, for the examples below.
\<close>

definition example_ctx :: Context where
  "example_ctx = \<lparr>Res_Header = Map.empty, SecureJSONPrefix = '')]}','', BaseDir = ''/app''\<rparr>"

definition unix_IsAbs :: "string \<Rightarrow> bool" where
  "unix_IsAbs p = (take 1 p = ''/'')"

definition unix_Join :: "string \<Rightarrow> string \<Rightarrow> string" where
  "unix_Join a b = a @ ''/'' @ b"

definition worth_site_css :: "string \<Rightarrow> bool" where
  "worth_site_css f = (f = ''/app/static/site.css'')"

definition example_env :: Env where
  "example_env =
     \<lparr>filepath_IsAbs = unix_IsAbs, filepath_Join = unix_Join,
      IsGzipWorthForFile = worth_site_css\<rparr>"

definition example_fs :: FileSystem where
  "example_fs p =
     (if p = ''/app/static''
      then Inr \<lparr>Stat = Inr \<lparr>IsDir = True, Size = 4096\<rparr>,
                content = \<lparr>remaining = [], fails_with = Some (PathError ''read'' p ''is a directory''),
                           closer = True\<rparr>\<rparr>
      else if p = ''/app/static/site.css''
      then Inr \<lparr>Stat = Inr \<lparr>IsDir = False, Size = 9\<rparr>,
                content = \<lparr>remaining = ''body { }'' @ [CHR 0x0A], fails_with = None, closer = True\<rparr>\<rparr>
      else Inl (PathError ''open'' p ''no such file or directory''))"

definition Root :: StartElement where
  "Root = StartElement (xml_Name [] ''Root'') []"

section \<open>Properties of the builder\<close>

lemmas http_status_defs =
  StatusOK_def StatusCreated_def StatusAccepted_def StatusNoContent_def
  StatusMovedPermanently_def StatusFound_def StatusTemporaryRedirect_def
  StatusBadRequest_def StatusUnauthorized_def StatusForbidden_def StatusNotFound_def
  StatusMethodNotAllowed_def StatusNotAcceptable_def StatusConflict_def
  StatusUnsupportedMediaType_def StatusInternalServerError_def
  StatusServiceUnavailable_def

lemmas shortcut_defs =
  Ok_def Created_def Accepted_def NoContent_def MovedPermanently_def Found_def
  TemporaryRedirect_def BadRequest_def Unauthorized_def Forbidden_def NotFound_def
  MethodNotAllowed_def NotAcceptable_def Conflict_def UnsupportedMediaType_def
  InternalServerError_def ServiceUnavailable_def

lemmas builder_defs =
  shortcut_defs Status_def Render_def JSON_def JSONSecure_def JSONP_def XML_def Text_def
  Binary_def FromReader_def HTML_def HTMLl_def HTMLf_def HTMLlf_def Redirect_def
  RedirectWithStatus_def Error_def Header_def HeaderAppend_def Done_def Cookie_def
  DisableGzip_def

lemmas example_defs =
  example_ctx_def example_env_def unix_IsAbs_def unix_Join_def worth_site_css_def

lemma ToLower_Text_HTML: "strings_ToLower ''Text/HTML'' = ''text/html''"
  by code_simp

lemma ToLower_text_csv: "strings_ToLower ''text/csv'' = ''text/csv''"
  by code_simp

lemma ToLower_text_plain: "strings_ToLower ''text/plain'' = ''text/plain''"
  by code_simp

lemma strings_ToLower_Nil_iff: "strings_ToLower v = [] \<longleftrightarrow> v = []"
  by (simp add: strings_ToLower_def)

subsection \<open>Status shortcuts\<close>

text \<open>
  Claim C8. Each named status shortcut sets the status of the reply to its standard code
  and returns the same builder: the reply after the call is the reply before it with
  \<open>Code\<close> replaced, for Ok 200, Created 201, Accepted 202, NoContent 204,
  MovedPermanently 301, Found 302, TemporaryRedirect 307, BadRequest 400, Unauthorized
  401, Forbidden 403, NotFound 404, MethodNotAllowed 405, NotAcceptable 406, Conflict
  409, UnsupportedMediaType 415, InternalServerError 500 and ServiceUnavailable 503.
\<close>

theorem status_shortcuts:
  "Ok r = r\<lparr>Code := 200\<rparr> \<and> Created r = r\<lparr>Code := 201\<rparr> \<and> Accepted r = r\<lparr>Code := 202\<rparr> \<and>
   NoContent r = r\<lparr>Code := 204\<rparr> \<and> MovedPermanently r = r\<lparr>Code := 301\<rparr> \<and>
   Found r = r\<lparr>Code := 302\<rparr> \<and> TemporaryRedirect r = r\<lparr>Code := 307\<rparr> \<and>
   BadRequest r = r\<lparr>Code := 400\<rparr> \<and> Unauthorized r = r\<lparr>Code := 401\<rparr> \<and>
   Forbidden r = r\<lparr>Code := 403\<rparr> \<and> NotFound r = r\<lparr>Code := 404\<rparr> \<and>
   MethodNotAllowed r = r\<lparr>Code := 405\<rparr> \<and> NotAcceptable r = r\<lparr>Code := 406\<rparr> \<and>
   Conflict r = r\<lparr>Code := 409\<rparr> \<and> UnsupportedMediaType r = r\<lparr>Code := 415\<rparr> \<and>
   InternalServerError r = r\<lparr>Code := 500\<rparr> \<and> ServiceUnavailable r = r\<lparr>Code := 503\<rparr>"
  by (simp add: shortcut_defs Status_def http_status_defs)

subsection \<open>The attached error\<close>

text \<open>
  Claim C9. \<open>Error(errObj)\<close> sets the attached error and nothing else: the reply after
  the call is the reply before it with \<open>err\<close> replaced, so the renderer, the status,
  the content type, the redirect flag and target, the done flag, the gzip flag, the body
  buffer, the cookies and the context are what they were.
\<close>

theorem Error_frame:
  "Error e r = r\<lparr>err := e\<rparr> \<and> err (Error e r) = e \<and> Rdr (Error e r) = Rdr r \<and>
   Code (Error e r) = Code r \<and> ContType (Error e r) = ContType r \<and>
   redirect (Error e r) = redirect r \<and> path (Error e r) = path r \<and>
   done (Error e r) = done r \<and> gzip (Error e r) = gzip r \<and> body (Error e r) = body r \<and>
   cookies (Error e r) = cookies r \<and> ctx (Error e r) = ctx r"
  by (simp add: Error_def)

subsection \<open>The content type\<close>

text \<open>
  Claim C4. \<open>ContentType\<close> is first-write-wins. On a reply whose content type is still
  empty the call with \<open>v\<close> stores the lower-cased \<open>v\<close>; while the stored content type
  is non-empty a call with any \<open>w\<close> leaves the reply as it is; so two calls, the first
  with a non-empty value, keep the first value.
\<close>

theorem ContentType_first_write_wins:
  "(ContType r = [] \<longrightarrow> ContType (ContentType v r) = strings_ToLower v) \<and>
   (ContType r \<noteq> [] \<longrightarrow> ContentType w r = r) \<and>
   (ContType r = [] \<and> v \<noteq> [] \<longrightarrow>
      ContType (ContentType w (ContentType v r)) = strings_ToLower v)"
  by (simp add: ContentType_def strings_ToLower_Nil_iff)

theorem ContentType_first_write_wins_witness:
  "ContType (newReply example_ctx) = [] \<and> ''Text/HTML'' \<noteq> [] \<and>
   ContType (ContentType ''Text/HTML'' (newReply example_ctx)) = ''text/html'' \<and>
   ContType (ContentType ''application/json'' (ContentType ''Text/HTML'' (newReply example_ctx)))
     = ''text/html'' \<and>
   ContType (ContentType ''Text/HTML'' (newReply example_ctx)) \<noteq> [] \<and>
   ContentType ''application/json'' (ContentType ''Text/HTML'' (newReply example_ctx))
     = ContentType ''Text/HTML'' (newReply example_ctx)"
  using ContentType_first_write_wins
          [of "newReply example_ctx" "''Text/HTML''" "''application/json''"]
        ContentType_first_write_wins
          [of "ContentType ''Text/HTML'' (newReply example_ctx)" "[]" "''application/json''"]
  by (simp add: newReply_def ContentType_def ToLower_Text_HTML)

lemma ContentType_keeps: "ContType r \<noteq> [] \<Longrightarrow> ContentType v r = r"
  by (simp add: ContentType_def)

lemma call_keeps_ContType:
  "ContType r \<noteq> [] \<Longrightarrow> ContType (call env c r) = ContType r"
  by (cases c) (simp_all add: builder_defs ContentType_keeps File_def FileDownload_def
        FileInline_def Let_def)

text \<open>
  Claim C10. Once the content type of a reply is non-empty, every builder call keeps
  it, and so does every sequence of calls; in particular \<open>JSON\<close>, \<open>JSONSecure\<close>,
  \<open>JSONP\<close>, \<open>XML\<close>, \<open>Text\<close>, \<open>HTMLlf\<close>, \<open>Header\<close> and \<open>HeaderAppend\<close> do not put
  their own MIME string in its place.
\<close>

theorem content_type_preserved:
  assumes "ContType r \<noteq> []"
  shows "ContType (calls env cs r) = ContType r \<and>
         ContType (JSON d r) = ContType r \<and> ContType (JSONSecure d r) = ContType r \<and>
         ContType (JSONP d cb r) = ContType r \<and> ContType (XML d r) = ContType r \<and>
         ContType (Text f vs r) = ContType r \<and> ContType (HTMLlf l fn vd r) = ContType r \<and>
         ContType (Header k v r) = ContType r \<and> ContType (HeaderAppend k v r) = ContType r"
proof -
  have seq: "ContType (calls env cs r) = ContType r"
    using assms
  proof (induction cs arbitrary: r)
    case Nil
    show ?case by simp
  next
    case (Cons c cs)
    have "ContType (call env c r) \<noteq> []"
      using Cons.prems by (simp add: call_keeps_ContType)
    then have "ContType (calls env cs (call env c r)) = ContType (call env c r)"
      by (rule Cons.IH)
    then show ?case
      using Cons.prems by (simp add: call_keeps_ContType)
  qed
  have one: "ContType (call env c r) = ContType r" for c
    using assms by (rule call_keeps_ContType)
  show ?thesis
    using seq one [of "JSON_call d"] one [of "JSONSecure_call d"] one [of "JSONP_call d cb"]
      one [of "XML_call d"] one [of "Text_call f vs"] one [of "HTMLlf_call l fn vd"]
      one [of "Header_call k v"] one [of "HeaderAppend_call k v"]
    by simp
qed

theorem content_type_preserved_witness:
  "ContType (ContentType ''text/csv'' (newReply example_ctx)) \<noteq> [] \<and>
   ContType (calls example_env
      [JSON_call (VInt 1), Header_call HeaderContentType ''text/html'', XML_call VNil,
       HeaderAppend_call HeaderContentType ''image/png'', Text_call ''hi'' [],
       Header_call HeaderContentType []]
      (ContentType ''text/csv'' (newReply example_ctx))) = ''text/csv'' \<and>
   ContType (JSON (VInt 1) (ContentType ''text/csv'' (newReply example_ctx))) = ''text/csv''"
  using content_type_preserved [of "ContentType ''text/csv'' (newReply example_ctx)" example_env
      "[JSON_call (VInt 1), Header_call HeaderContentType ''text/html'', XML_call VNil,
       HeaderAppend_call HeaderContentType ''image/png'', Text_call ''hi'' [],
       Header_call HeaderContentType []]" "VInt 1"]
  by (simp add: newReply_def ContentType_def ToLower_text_csv)

subsection \<open>Clearing the content type through \<open>Header\<close>\<close>

text \<open>
  With the key \<open>Content-Type\<close> and the empty value, \<open>Header\<close> calls
  \<open>ContentType("")\<close>, which stores the empty string when the content type is empty and
  does nothing otherwise: for every reply the call changes nothing.
\<close>

lemma Header_ContentType_empty: "Header HeaderContentType [] r = r"
  by (simp add: Header_def ContentType_def strings_ToLower_def)

text \<open>
  Claim C1 says that on a reply whose content type is set, \<open>Header\<close> with the key
  \<open>Content-Type\<close> and the empty value clears the content type, so that
  \<open>IsContentTypeSet\<close> is false afterwards. On the reply with content type
  \<open>text/plain\<close> the code leaves the content type in place and \<open>IsContentTypeSet\<close>
  remains true.
\<close>

theorem Header_empty_ContentType_not_cleared:
  "IsContentTypeSet (ContentType ''text/plain'' (newReply example_ctx)) = True \<and>
   IsContentTypeSet
     (Header HeaderContentType [] (ContentType ''text/plain'' (newReply example_ctx))) = True \<and>
   ContType (Header HeaderContentType [] (ContentType ''text/plain'' (newReply example_ctx)))
     = ''text/plain''"
  by (simp add: Header_def ContentType_def newReply_def IsContentTypeSet_def ToLower_text_plain)

subsection \<open>The gzip flag\<close>

lemma gzip_call_other:
  "\<not> is_File_call c \<Longrightarrow> gzip r = False \<Longrightarrow> gzip (call env c r) = False"
  by (cases c) (simp_all add: builder_defs ContentType_def Let_def)

lemma gzip_calls_other:
  "list_all (\<lambda>c. \<not> is_File_call c) cs \<Longrightarrow> gzip r = False \<Longrightarrow> gzip (calls env cs r) = False"
  by (induction cs arbitrary: r) (simp_all add: gzip_call_other)

lemma gzip_File:
  "gzip (File env f r) =
     IsGzipWorthForFile env
       (if filepath_IsAbs env f then f else filepath_Join env (BaseDir (ctx r)) f)"
  by (simp add: File_def Render_def Let_def)

text \<open>
  Claim C2 says that after \<open>DisableGzip\<close> the gzip flag never becomes true again, a
  later \<open>File\<close> call included. \<open>File\<close> assigns the flag the verdict of
  \<open>IsGzipWorthForFile\<close> whatever it was: after \<open>DisableGzip\<close> and \<open>File\<close> of a file
  worth compressing the flag is true.
\<close>

theorem DisableGzip_then_File_counterexample:
  "gzip (calls example_env [DisableGzip_call, File_call ''static/site.css'']
           (newReply example_ctx)) = True"
  by (simp add: DisableGzip_def File_def Render_def newReply_def example_defs)

text \<open>
  Claim C2, amended. \<open>DisableGzip\<close> sets the gzip flag to false, and the flag stays
  false under every later sequence of builder calls that does not reach \<open>File\<close> (by
  \<open>File\<close>, \<open>FileDownload\<close> or \<open>FileInline\<close>). A \<open>File\<close> call after
  \<open>DisableGzip\<close> sets the flag to the gzip-worthiness of the resolved path.
  \<open>DisableGzip\<close> called after any calls, \<open>File\<close> among them, leaves the flag false.
\<close>

theorem DisableGzip_until_File:
  "gzip (DisableGzip r) = False \<and>
   (list_all (\<lambda>c. \<not> is_File_call c) cs \<longrightarrow> gzip (calls env cs (DisableGzip r)) = False) \<and>
   gzip (File env f (DisableGzip r)) =
     IsGzipWorthForFile env
       (if filepath_IsAbs env f then f else filepath_Join env (BaseDir (ctx r)) f) \<and>
   gzip (DisableGzip (calls env cs r)) = False"
proof -
  have off: "gzip (DisableGzip r') = False" for r'
    by (simp add: DisableGzip_def)
  have later:
    "list_all (\<lambda>c. \<not> is_File_call c) cs \<longrightarrow> gzip (calls env cs (DisableGzip r)) = False"
    using off [of r] by (simp add: gzip_calls_other)
  have fl: "gzip (File env f (DisableGzip r)) =
     IsGzipWorthForFile env
       (if filepath_IsAbs env f then f else filepath_Join env (BaseDir (ctx r)) f)"
    by (simp add: gzip_File DisableGzip_def)
  show ?thesis
    using off later fl by blast
qed

theorem DisableGzip_until_File_witness:
  "list_all (\<lambda>c. \<not> is_File_call c)
     [JSON_call (VInt 1), Ok_call, Header_call ''X-Frame-Options'' ''DENY'', Binary_call ''abc''] \<and>
   gzip (calls example_env
     [JSON_call (VInt 1), Ok_call, Header_call ''X-Frame-Options'' ''DENY'', Binary_call ''abc'']
     (DisableGzip (newReply example_ctx))) = False \<and>
   gzip (File example_env ''static/logo.png'' (DisableGzip (newReply example_ctx))) = False \<and>
   gzip (File example_env ''static/site.css'' (DisableGzip (newReply example_ctx))) = True"
  using DisableGzip_until_File [of "newReply example_ctx"
     "[JSON_call (VInt 1), Ok_call, Header_call ''X-Frame-Options'' ''DENY'', Binary_call ''abc'']"
     example_env "''static/site.css''"]
     DisableGzip_until_File [of "newReply example_ctx" "[]" example_env "''static/logo.png''"]
  by (simp add: newReply_def example_defs)

section \<open>Properties of the renderers\<close>

subsection \<open>JSONP\<close>

lemma json_Marshal_a1: \<open>json_Marshal (VData [(''a'', VInt 1)]) = Inr ''{"a":1}''\<close>
  by code_simp

text \<open>
  Claim C3 pins the output for the callback \<open>cb\<close> and the payload \<open>{"a":1}\<close> as
  \<open>cb({"a":1}\<close>, a newline and \<open>);\<close>. The renderer marshals with \<open>json.Marshal\<close>,
  not with the encoder, so no newline is written.
\<close>

theorem jsonpRender_newline_counterexample:
  \<open>written (fst (jsonpRender_Render ''cb'' (VData [(''a'', VInt 1)]) bytes_Buffer)) \<noteq>
     ''cb({"a":1}'' @ [CHR 0x0A] @ '');''\<close>
  by (simp add: jsonpRender_Render_def json_Marshal_a1 Write_def bytes_Buffer_def
        del: json_Marshal.simps)

text \<open>
  Claim C3, amended. When the payload marshals to \<open>js\<close>, the JSONP renderer with the
  empty callback makes one write of exactly \<open>js\<close>, and with a non-empty callback
  \<open>name\<close> one write of exactly \<open>name(js);\<close>; when the payload cannot be marshalled
  it writes nothing and returns the error. For the callback \<open>cb\<close> and the payload
  \<open>{"a":1}\<close> the bytes are \<open>cb({"a":1});\<close>, without a newline.
\<close>

theorem jsonpRender_format:
  \<open>(json_Marshal data = Inr js \<longrightarrow>
      jsonpRender_Render [] data w = (case Write js w of (w', n, e) \<Rightarrow> (w', e))) \<and>
   (json_Marshal data = Inr js \<and> callback \<noteq> [] \<longrightarrow>
      jsonpRender_Render callback data w =
        (case Write (callback @ ''('' @ js @ '');'') w of (w', n, e) \<Rightarrow> (w', e))) \<and>
   (json_Marshal data = Inl x \<longrightarrow> jsonpRender_Render callback data w = (w, Some x)) \<and>
   jsonpRender_Render ''cb'' (VData [(''a'', VInt 1)]) bytes_Buffer =
     (\<lparr>written = ''cb({"a":1});'', room = None\<rparr>, None)\<close>
proof -
  have ex: \<open>jsonpRender_Render ''cb'' (VData [(''a'', VInt 1)]) bytes_Buffer =
     (\<lparr>written = ''cb({"a":1});'', room = None\<rparr>, None)\<close>
    by (simp add: jsonpRender_Render_def json_Marshal_a1 Write_def bytes_Buffer_def
          del: json_Marshal.simps)
  show ?thesis
    using ex by (simp add: jsonpRender_Render_def)
qed

theorem jsonpRender_format_witness:
  \<open>json_Marshal (VData [(''a'', VInt 1)]) = Inr ''{"a":1}'' \<and> ''cb'' \<noteq> [] \<and>
   jsonpRender_Render [] (VData [(''a'', VInt 1)]) bytes_Buffer =
     (\<lparr>written = ''{"a":1}'', room = None\<rparr>, None) \<and>
   jsonpRender_Render ''cb'' (VData [(''a'', VInt 1)]) bytes_Buffer =
     (\<lparr>written = ''cb({"a":1});'', room = None\<rparr>, None) \<and>
   json_Marshal VNaN = Inl (UnsupportedValueError ''NaN'') \<and>
   jsonpRender_Render ''cb'' VNaN bytes_Buffer = (bytes_Buffer, Some (UnsupportedValueError ''NaN''))\<close>
  using jsonpRender_format
          [where data = "VData [(''a'', VInt 1)]" and js = \<open>''{"a":1}''\<close>
             and w = bytes_Buffer and callback = "''cb''" and x = ErrShortWrite]
        jsonpRender_format
          [where data = VNaN and js = "[]" and w = bytes_Buffer and callback = "''cb''"
             and x = "UnsupportedValueError ''NaN''"]
        json_Marshal_a1 json_Marshal.simps(5)
  by (simp add: Write_def bytes_Buffer_def del: json_Marshal.simps)

subsection \<open>The XML mapper of \<open>Data\<close>\<close>

subsubsection \<open>The buffered writer\<close>

lemma Write_ok_written:
  "Write p w = (w', n, None) \<Longrightarrow>
   written w' = written w @ p \<and> n = length p \<and>
   room w' = (case room w of None \<Rightarrow> None | Some k \<Rightarrow> Some (k - length p))"
  by (auto simp: Write_def split: option.splits if_splits)

lemma Write_buffer:
  "room w = None \<Longrightarrow> Write p w = (w\<lparr>written := written w @ p\<rparr>, length p, None)"
  by (simp add: Write_def)

lemma Flush_tags [simp]: "tags (fst (Flush e)) = tags e"
  by (auto simp: Flush_def split: option.splits prod.splits)

lemma Flush_snd: "snd (Flush e) = werr (fst (Flush e))"
  by (auto simp: Flush_def split: option.splits prod.splits)

lemma Flush_ok:
  assumes "werr (fst (Flush e)) = None"
  shows "werr e = None \<and> buf (fst (Flush e)) = [] \<and> written (wr (fst (Flush e))) = emitted e"
proof -
  have w: "werr e = None"
    using assms by (cases "werr e") (simp_all add: Flush_def)
  show ?thesis
  proof (cases "buf e = []")
    case True
    then show ?thesis using w by (simp add: Flush_def emitted_def)
  next
    case False
    obtain w' n r where W: "Write (buf e) (wr e) = (w', n, r)"
      by (cases "Write (buf e) (wr e)")
    have r: "r = None"
      using assms w False W by (cases r) (simp_all add: Flush_def)
    show ?thesis
      using w False W r Write_ok_written [of "buf e" "wr e" w' n]
      by (simp add: Flush_def emitted_def)
  qed
qed

lemma Flush_healthy:
  "werr e = None \<Longrightarrow> room (wr e) = None \<Longrightarrow>
   Flush e = (e\<lparr>buf := [], wr := (wr e)\<lparr>written := emitted e\<rparr>\<rparr>, None)"
  by (simp add: Flush_def Write_buffer emitted_def)

lemma emitted_Flush:
  "werr (fst (Flush e)) = None \<Longrightarrow> emitted (fst (Flush e)) = emitted e"
  using Flush_ok [of e] by (simp add: emitted_def)

lemma bufio_WriteByte_tags [simp]: "tags (bufio_WriteByte c e) = tags e"
proof -
  have "tags (fst (Flush e)) = tags e" by simp
  then show ?thesis
    by (cases "Flush e") (auto simp: bufio_WriteByte_def split: option.splits)
qed

lemma bufio_WriteByte_ok:
  assumes "werr (bufio_WriteByte c e) = None"
  shows "werr e = None \<and> emitted (bufio_WriteByte c e) = emitted e @ [c]"
proof -
  have w: "werr e = None"
    using assms by (cases "werr e") (simp_all add: bufio_WriteByte_def)
  show ?thesis
  proof (cases "Available e \<le> 0")
    case False
    then show ?thesis using w by (simp add: bufio_WriteByte_def emitted_def)
  next
    case True
    obtain e1 r where F: "Flush e = (e1, r)" by (cases "Flush e")
    have r: "r = werr e1" using Flush_snd [of e] F by simp
    have r0: "r = None"
    proof (cases r)
      case (Some x)
      then have "bufio_WriteByte c e = e1"
        using w True F by (simp add: bufio_WriteByte_def)
      then show ?thesis using assms r by simp
    qed
    then have "emitted e1 = emitted e"
      using emitted_Flush [of e] F r by simp
    then show ?thesis
      using w True F r0 by (simp add: bufio_WriteByte_def emitted_def)
  qed
qed

lemma bufio_WriteByte_healthy:
  assumes "werr e = None" and "room (wr e) = None"
  shows "werr (bufio_WriteByte c e) = None \<and> room (wr (bufio_WriteByte c e)) = None \<and>
         buf (bufio_WriteByte c e) \<noteq> []"
  using assms by (simp add: bufio_WriteByte_def Flush_healthy)

lemma emitsI:
  assumes "\<And>e. tags (f e) = tags e"
    and "\<And>e. werr (f e) = None \<Longrightarrow> werr e = None \<and> emitted (f e) = emitted e @ p"
    and "\<And>e. werr e = None \<Longrightarrow> room (wr e) = None \<Longrightarrow>
           werr (f e) = None \<and> room (wr (f e)) = None"
  shows "emits f p"
  unfolding emits_def using assms by blast

lemma emits_WriteByte: "emits (bufio_WriteByte c) [c]"
proof (rule emitsI)
  fix e
  show "tags (bufio_WriteByte c e) = tags e" by simp
  show "werr (bufio_WriteByte c e) = None \<Longrightarrow>
        werr e = None \<and> emitted (bufio_WriteByte c e) = emitted e @ [c]"
    by (rule bufio_WriteByte_ok)
  show "werr e = None \<Longrightarrow> room (wr e) = None \<Longrightarrow>
        werr (bufio_WriteByte c e) = None \<and> room (wr (bufio_WriteByte c e)) = None"
    using bufio_WriteByte_healthy [of e c] by blast
qed

lemma bufio_write_stop:
  "\<not> (length p > Available e \<and> werr e = None) \<Longrightarrow>
   bufio_write direct p e = (if werr e \<noteq> None then e else e\<lparr>buf := buf e @ p\<rparr>)"
  by (subst bufio_write.simps) (simp only: if_False)

lemma bufio_write_direct:
  "length p > Available e \<and> werr e = None \<Longrightarrow> direct \<and> buf e = [] \<Longrightarrow>
   Write p (wr e) = (w', n, r) \<Longrightarrow>
   bufio_write direct p e = bufio_write direct (drop n p) (e\<lparr>werr := r, wr := w'\<rparr>)"
  by (subst bufio_write.simps) simp

lemma bufio_write_fill:
  "length p > Available e \<and> werr e = None \<Longrightarrow> \<not> (direct \<and> buf e = []) \<Longrightarrow>
   bufio_write direct p e =
     bufio_write direct (drop (Available e) p)
       (fst (Flush (e\<lparr>buf := buf e @ take (Available e) p\<rparr>)))"
  by (subst bufio_write.simps) auto

lemma bufio_write_tags [simp]: "tags (bufio_write direct p e) = tags e"
proof (induction direct p e rule: bufio_write.induct)
  case (1 direct p e)
  show ?case
  proof (cases "length p > Available e \<and> werr e = None")
    case False
    then show ?thesis by (simp add: bufio_write_stop)
  next
    case loop: True
    show ?thesis
    proof (cases "direct \<and> buf e = []")
      case True
      obtain w' n r where W: "Write p (wr e) = (w', n, r)" by (cases "Write p (wr e)")
      have "tags (bufio_write direct (drop n p) (e\<lparr>werr := r, wr := w'\<rparr>)) = tags e"
        using "1.IH"(1) [OF loop True W [symmetric] refl] by simp
      then show ?thesis
        by (simp add: bufio_write_direct [OF loop True W])
    next
      case False
      have "tags (bufio_write direct (drop (Available e) p)
                (fst (Flush (e\<lparr>buf := buf e @ take (Available e) p\<rparr>)))) = tags e"
        using "1.IH"(2) [OF loop False] by simp
      then show ?thesis
        by (simp add: bufio_write_fill [OF loop False])
    qed
  qed
qed

lemma bufio_write_ok:
  "werr (bufio_write direct p e) = None \<Longrightarrow>
   werr e = None \<and> emitted (bufio_write direct p e) = emitted e @ p"
proof (induction direct p e rule: bufio_write.induct)
  case (1 direct p e)
  show ?case
  proof (cases "length p > Available e \<and> werr e = None")
    case False
    have eq: "bufio_write direct p e = (if werr e \<noteq> None then e else e\<lparr>buf := buf e @ p\<rparr>)"
      using False by (rule bufio_write_stop)
    have w: "werr e = None"
      using "1.prems" eq by (cases "werr e") simp_all
    show ?thesis
      using w eq by (simp add: emitted_def)
  next
    case loop: True
    show ?thesis
    proof (cases "direct \<and> buf e = []")
      case True
      obtain w' n r where W: "Write p (wr e) = (w', n, r)" by (cases "Write p (wr e)")
      let ?e1 = "e\<lparr>werr := r, wr := w'\<rparr>"
      have eq: "bufio_write direct p e = bufio_write direct (drop n p) ?e1"
        using loop True W by (rule bufio_write_direct)
      then have "werr (bufio_write direct (drop n p) ?e1) = None"
        using "1.prems" by simp
      from "1.IH"(1) [OF loop True W [symmetric] refl this]
      have ih: "werr ?e1 = None \<and>
          emitted (bufio_write direct (drop n p) ?e1) = emitted ?e1 @ drop n p" .
      then have r: "r = None" by simp
      from W r Write_ok_written [of p "wr e" w' n]
      have w': "written w' = written (wr e) @ p" and n: "n = length p" by simp_all
      have em1: "emitted (bufio_write direct (drop n p) ?e1) = emitted ?e1 @ drop n p"
        using ih by blast
      have "emitted (bufio_write direct p e) = emitted ?e1 @ drop n p"
        unfolding eq by (rule em1)
      also have "\<dots> = emitted e @ p"
        using True w' n by (simp add: emitted_def)
      finally show ?thesis
        using loop by simp
    next
      case False
      let ?e0 = "e\<lparr>buf := buf e @ take (Available e) p\<rparr>"
      let ?e1 = "fst (Flush ?e0)"
      have eq: "bufio_write direct p e = bufio_write direct (drop (Available e) p) ?e1"
        using loop False by (rule bufio_write_fill)
      then have "werr (bufio_write direct (drop (Available e) p) ?e1) = None"
        using "1.prems" by simp
      from "1.IH"(2) [OF loop False this]
      have w1: "werr ?e1 = None"
        and em: "emitted (bufio_write direct (drop (Available e) p) ?e1)
                   = emitted ?e1 @ drop (Available e) p"
        by blast+
      have "emitted ?e1 = emitted ?e0"
        using w1 by (rule emitted_Flush)
      also have "\<dots> = emitted e @ take (Available e) p"
        by (simp add: emitted_def)
      finally have "emitted (bufio_write direct p e)
          = emitted e @ take (Available e) p @ drop (Available e) p"
        using eq em by simp
      then show ?thesis
        using loop by simp
    qed
  qed
qed

lemma bufio_write_healthy:
  "werr e = None \<Longrightarrow> room (wr e) = None \<Longrightarrow>
   werr (bufio_write direct p e) = None \<and> room (wr (bufio_write direct p e)) = None"
proof (induction direct p e rule: bufio_write.induct)
  case (1 direct p e)
  show ?case
  proof (cases "length p > Available e \<and> werr e = None")
    case False
    then show ?thesis
      using "1.prems" by (simp add: bufio_write_stop)
  next
    case loop: True
    show ?thesis
    proof (cases "direct \<and> buf e = []")
      case True
      let ?w = "(wr e)\<lparr>written := written (wr e) @ p\<rparr>"
      have W: "Write p (wr e) = (?w, length p, None)"
        using "1.prems" by (simp add: Write_buffer)
      let ?e1 = "e\<lparr>werr := None, wr := ?w\<rparr>"
      have eq: "bufio_write direct p e = bufio_write direct (drop (length p) p) ?e1"
        using loop True W by (rule bufio_write_direct)
      have "werr ?e1 = None" and "room (wr ?e1) = None"
        using "1.prems" by simp_all
      from "1.IH"(1) [OF loop True W [symmetric] refl this]
      show ?thesis
        unfolding eq .
    next
      case False
      let ?e0 = "e\<lparr>buf := buf e @ take (Available e) p\<rparr>"
      let ?e1 = "fst (Flush ?e0)"
      have eq: "bufio_write direct p e = bufio_write direct (drop (Available e) p) ?e1"
        using loop False by (rule bufio_write_fill)
      have "werr ?e1 = None" and "room (wr ?e1) = None"
        using "1.prems" by (simp_all add: Flush_healthy)
      from "1.IH"(2) [OF loop False this] show ?thesis
        unfolding eq .
    qed
  qed
qed

lemma emits_write: "emits (bufio_write direct p) p"
proof (rule emitsI)
  fix e
  show "tags (bufio_write direct p e) = tags e" by simp
  show "werr (bufio_write direct p e) = None \<Longrightarrow>
        werr e = None \<and> emitted (bufio_write direct p e) = emitted e @ p"
    by (rule bufio_write_ok)
  show "werr e = None \<Longrightarrow> room (wr e) = None \<Longrightarrow>
        werr (bufio_write direct p e) = None \<and> room (wr (bufio_write direct p e)) = None"
    by (rule bufio_write_healthy)
qed

lemma emits_Write: "emits (bufio_Write p) p"
  using emits_write [of True p] by (simp add: bufio_Write_def [abs_def])

lemma emits_WriteString: "emits (bufio_WriteString p) p"
  using emits_write [of False p] by (simp add: bufio_WriteString_def [abs_def])

lemma emits_tags: "emits f p \<Longrightarrow> tags (f e) = tags e"
  unfolding emits_def by blast

lemma emits_ok:
  "emits f p \<Longrightarrow> werr (f e) = None \<Longrightarrow> werr e = None \<and> emitted (f e) = emitted e @ p"
  unfolding emits_def by blast

lemma emits_healthy:
  "emits f p \<Longrightarrow> werr e = None \<Longrightarrow> room (wr e) = None \<Longrightarrow>
   werr (f e) = None \<and> room (wr (f e)) = None"
  unfolding emits_def by blast

lemma emits_comp:
  assumes "emits f p" and "emits g q"
  shows "emits (\<lambda>e. g (f e)) (p @ q)"
proof (rule emitsI)
  fix e
  show "tags (g (f e)) = tags e"
    using emits_tags [OF assms(2), of "f e"] emits_tags [OF assms(1), of e] by simp
  show "werr e = None \<and> emitted (g (f e)) = emitted e @ p @ q" if "werr (g (f e)) = None"
  proof -
    from emits_ok [OF assms(2) that]
    have 1: "werr (f e) = None" and 2: "emitted (g (f e)) = emitted (f e) @ q" by blast+
    from emits_ok [OF assms(1) 1]
    have "werr e = None" and "emitted (f e) = emitted e @ p" by blast+
    then show ?thesis using 2 by simp
  qed
  show "werr (g (f e)) = None \<and> room (wr (g (f e))) = None"
    if "werr e = None" "room (wr e) = None"
  proof -
    from emits_healthy [OF assms(1) that]
    have "werr (f e) = None" and "room (wr (f e)) = None" by blast+
    then show ?thesis by (rule emits_healthy [OF assms(2)])
  qed
qed

lemma emits_id: "emits (\<lambda>e. e) []"
  by (rule emitsI) simp_all

lemma emits_cong: "emits f p \<Longrightarrow> p = q \<Longrightarrow> emits f q"
  by simp

lemma emits_escapeText_from:
  "emits (escapeText_from nl run cs) (run @ xml_escaped nl cs)"
proof (induction cs arbitrary: run)
  case Nil
  have "escapeText_from nl run [] = bufio_Write run"
    by (simp add: fun_eq_iff)
  then show ?case
    using emits_Write [of run] by (simp add: xml_escaped_def)
next
  case (Cons c cs)
  show ?case
  proof (cases "xml_escape nl c")
    case None
    have "escapeText_from nl run (c # cs) = escapeText_from nl (run @ [c]) cs"
      using None by (simp add: fun_eq_iff)
    moreover have "run @ xml_escaped nl (c # cs) = (run @ [c]) @ xml_escaped nl cs"
      using None by (simp add: xml_escaped_def)
    ultimately show ?thesis
      using Cons.IH [of "run @ [c]"] by simp
  next
    case (Some esc)
    have f: "escapeText_from nl run (c # cs) =
        (\<lambda>e. escapeText_from nl [] cs (bufio_Write esc (bufio_Write run e)))"
      using Some by (simp add: fun_eq_iff)
    have t: "run @ xml_escaped nl (c # cs) = (run @ esc) @ [] @ xml_escaped nl cs"
      using Some by (simp add: xml_escaped_def)
    have "emits (\<lambda>e. bufio_Write esc (bufio_Write run e)) (run @ esc)"
      by (rule emits_comp [OF emits_Write emits_Write])
    from emits_comp [OF this Cons.IH [of "[]"]]
    show ?thesis
      unfolding f t .
  qed
qed

lemma emits_escapeText: "emits (escapeText nl s) (xml_escaped nl s)"
proof -
  have "escapeText nl s = escapeText_from nl [] s"
    by (simp add: fun_eq_iff escapeText_def)
  then show ?thesis
    using emits_escapeText_from [of nl "[]" s] by simp
qed

lemma emits_EscapeString_from:
  "emits (EscapeString_from run cs) (run @ xml_escaped True cs)"
proof (induction cs arbitrary: run)
  case Nil
  have "EscapeString_from run [] = bufio_WriteString run"
    by (simp add: fun_eq_iff)
  then show ?case
    using emits_WriteString [of run] by (simp add: xml_escaped_def)
next
  case (Cons c cs)
  show ?case
  proof (cases "xml_escape True c")
    case None
    have "EscapeString_from run (c # cs) = EscapeString_from (run @ [c]) cs"
      using None by (simp add: fun_eq_iff)
    moreover have "run @ xml_escaped True (c # cs) = (run @ [c]) @ xml_escaped True cs"
      using None by (simp add: xml_escaped_def)
    ultimately show ?thesis
      using Cons.IH [of "run @ [c]"] by simp
  next
    case (Some esc)
    have f: "EscapeString_from run (c # cs) =
        (\<lambda>e. EscapeString_from [] cs (bufio_Write esc (bufio_WriteString run e)))"
      using Some by (simp add: fun_eq_iff)
    have t: "run @ xml_escaped True (c # cs) = (run @ esc) @ [] @ xml_escaped True cs"
      using Some by (simp add: xml_escaped_def)
    have "emits (\<lambda>e. bufio_Write esc (bufio_WriteString run e)) (run @ esc)"
      by (rule emits_comp [OF emits_WriteString emits_Write])
    from emits_comp [OF this Cons.IH [of "[]"]]
    show ?thesis
      unfolding f t .
  qed
qed

lemma emits_EscapeString: "emits (EscapeString s) (xml_escaped True s)"
proof -
  have "EscapeString s = EscapeString_from [] s"
    by (simp add: fun_eq_iff EscapeString_def)
  then show ?thesis
    using emits_EscapeString_from [of "[]" s] by simp
qed

lemma emits_write_attr: "emits (write_attr a) (attr_text a)"
proof (cases a)
  case (xml_Attr name v)
  show ?thesis
  proof (cases "name = []")
    case True
    have "write_attr a = (\<lambda>e. e)"
      using True by (simp add: fun_eq_iff xml_Attr write_attr_def)
    then show ?thesis
      using emits_id True by (simp add: xml_Attr attr_text_def)
  next
    case False
    have f: "write_attr a =
        (\<lambda>e. bufio_WriteByte (CHR 0x22)
               (EscapeString v
                  (bufio_WriteString [CHR ''='', CHR 0x22]
                     (bufio_WriteString name (bufio_WriteByte (CHR '' '') e)))))"
      using False by (simp add: fun_eq_iff xml_Attr write_attr_def)
    have t: "attr_text a =
        ((([CHR '' ''] @ name) @ [CHR ''='', CHR 0x22]) @ xml_escaped True v) @ [CHR 0x22]"
      using False by (simp add: xml_Attr attr_text_def)
    show ?thesis
      unfolding f t
      by (intro emits_comp emits_WriteByte emits_WriteString emits_EscapeString)
  qed
qed

lemma emits_fold_write_attr: "emits (fold write_attr as) (concat (map attr_text as))"
proof (induction as)
  case Nil
  have "fold write_attr [] = (\<lambda>e. e)" by (simp add: fun_eq_iff)
  then show ?case using emits_id by simp
next
  case (Cons a as)
  have f: "fold write_attr (a # as) = (\<lambda>e. fold write_attr as (write_attr a e))"
    by (simp add: fun_eq_iff)
  show ?case
    unfolding f using emits_comp [OF emits_write_attr Cons.IH] by simp
qed

lemma emits_write_xmlns:
  "emits (write_xmlns space)
     (if space \<noteq> [] then '' xmlns='' @ [CHR 0x22] @ xml_escaped True space @ [CHR 0x22] else [])"
proof (cases "space = []")
  case True
  have "write_xmlns space = (\<lambda>e. e)"
    using True by (simp add: fun_eq_iff write_xmlns_def)
  then show ?thesis using emits_id True by simp
next
  case False
  have f: "write_xmlns space =
      (\<lambda>e. bufio_WriteByte (CHR 0x22)
             (EscapeString space (bufio_WriteString ('' xmlns='' @ [CHR 0x22]) e)))"
    using False by (simp add: fun_eq_iff write_xmlns_def)
  have t: "(if space \<noteq> [] then '' xmlns='' @ [CHR 0x22] @ xml_escaped True space @ [CHR 0x22]
            else []) = (('' xmlns='' @ [CHR 0x22]) @ xml_escaped True space) @ [CHR 0x22]"
    using False by simp
  show ?thesis
    unfolding f t
    by (intro emits_comp emits_WriteByte emits_WriteString emits_EscapeString)
qed

lemma emits_write_start_tag: "emits (write_start_tag start) (start_text start)"
proof -
  have f: "write_start_tag start =
      (\<lambda>e. bufio_WriteByte (CHR ''>'')
         (fold write_attr (Attr start)
            (write_xmlns (Space (Name start))
               (bufio_WriteString (Local (Name start)) (bufio_WriteByte (CHR ''<'') e)))))"
    by (simp add: fun_eq_iff write_start_tag_def)
  have t: "start_text start =
      ((([CHR ''<''] @ Local (Name start)) @
        (if Space (Name start) \<noteq> []
         then '' xmlns='' @ [CHR 0x22] @ xml_escaped True (Space (Name start)) @ [CHR 0x22]
         else [])) @ concat (map attr_text (Attr start))) @ [CHR ''>'']"
    by (simp add: start_text_def)
  show ?thesis
    unfolding f t
    by (intro emits_comp emits_WriteByte emits_WriteString emits_write_xmlns
          emits_fold_write_attr)
qed

lemma emits_write_end_tag: "emits (write_end_tag name) (end_text name)"
proof -
  have f: "write_end_tag name =
      (\<lambda>e. bufio_WriteByte (CHR ''>'')
         (bufio_WriteString (Local name)
            (bufio_WriteByte (CHR ''/'') (bufio_WriteByte (CHR ''<'') e))))"
    by (simp add: fun_eq_iff write_end_tag_def)
  have t: "end_text name = ((([CHR ''<''] @ [CHR ''/'']) @ Local name) @ [CHR ''>''])"
    by (simp add: end_text_def)
  show ?thesis
    unfolding f t
    by (intro emits_comp emits_WriteByte emits_WriteString)
qed

subsubsection \<open>The encoder on tokens\<close>

lemma emitted_tags [simp]: "emitted (e\<lparr>tags := ts\<rparr>) = emitted e"
  by (simp add: emitted_def)

lemma strings_Title_Nil_iff: "strings_Title k = [] \<longleftrightarrow> k = []"
  by (cases k) (simp_all add: strings_Title_def)

subsubsection \<open>What a successful call has done\<close>

lemma writeStart_ok:
  assumes "writeStart st e = (e', None)" and "werr e' = None"
  shows "Local (Name st) \<noteq> [] \<and> werr e = None \<and> emitted e' = emitted e @ start_text st \<and>
         tags e' = tags e @ [Name st]"
proof -
  have n: "Local (Name st) \<noteq> []"
    using assms(1) by (auto simp: writeStart_def split: if_splits)
  then have e': "e' = write_start_tag st (e\<lparr>tags := tags e @ [Name st]\<rparr>)"
    using assms(1) by (simp add: writeStart_def)
  from emits_ok [OF emits_write_start_tag assms(2) [unfolded e']]
       emits_tags [OF emits_write_start_tag, of st "e\<lparr>tags := tags e @ [Name st]\<rparr>"]
  show ?thesis
    using n e' by simp
qed

lemma writeEnd_ok:
  assumes "writeEnd n e = (e', None)" and "werr e' = None"
  shows "Local n \<noteq> [] \<and> tags e \<noteq> [] \<and> last (tags e) = n \<and> werr e = None \<and>
         emitted e' = emitted e @ end_text n \<and> tags e' = butlast (tags e)"
proof -
  have v: "Local n \<noteq> [] \<and> tags e \<noteq> [] \<and> last (tags e) = n"
    using assms(1) by (auto simp: writeEnd_def split: if_splits)
  then have e': "e' = write_end_tag n (e\<lparr>tags := butlast (tags e)\<rparr>)"
    using assms(1) by (auto simp: writeEnd_def split: if_splits)
  from emits_ok [OF emits_write_end_tag assms(2) [unfolded e']]
       emits_tags [OF emits_write_end_tag, of n "e\<lparr>tags := butlast (tags e)\<rparr>"]
  show ?thesis
    using v e' by simp
qed

lemma EncodeToken_None_werr:
  "EncodeToken t e = (e', None) \<Longrightarrow> werr e' = None"
  by (cases t) (auto simp: EncodeToken_def Let_def split: prod.splits option.splits)

lemma EncodeToken_Start_ok:
  assumes "EncodeToken (StartToken st) e = (e', None)"
  shows "Local (Name st) \<noteq> [] \<and> werr e = None \<and> werr e' = None \<and>
         emitted e' = emitted e @ start_text st \<and> tags e' = tags e @ [Name st]"
proof -
  have w: "werr e' = None" using assms by (rule EncodeToken_None_werr)
  have "writeStart st e = (e', None)"
    using assms by (auto simp: EncodeToken_def split: prod.splits option.splits)
  from writeStart_ok [OF this w] w show ?thesis by simp
qed

lemma EncodeToken_End_ok:
  assumes "EncodeToken (EndElement n) e = (e', None)"
  shows "Local n \<noteq> [] \<and> tags e \<noteq> [] \<and> last (tags e) = n \<and> werr e = None \<and> werr e' = None \<and>
         emitted e' = emitted e @ end_text n \<and> tags e' = butlast (tags e)"
proof -
  have w: "werr e' = None" using assms by (rule EncodeToken_None_werr)
  have "writeEnd n e = (e', None)"
    using assms by (auto simp: EncodeToken_def split: prod.splits option.splits)
  from writeEnd_ok [OF this w] w show ?thesis by simp
qed

lemma EncodeToken_CharData_ok:
  assumes "EncodeToken (CharData s) e = (e', None)"
  shows "werr e = None \<and> werr e' = None \<and> emitted e' = emitted e @ xml_escaped False s \<and>
         tags e' = tags e"
proof -
  have w: "werr e' = None" using assms by (rule EncodeToken_None_werr)
  have e': "e' = escapeText False s e"
    using assms by (simp add: EncodeToken_def Let_def)
  from emits_ok [OF emits_escapeText w [unfolded e']]
       emits_tags [OF emits_escapeText, of False s e]
  show ?thesis
    using w e' by simp
qed

lemma EncodeTokens_append:
  "EncodeTokens (ts @ us) e =
     (case EncodeTokens ts e of (e', Some x) \<Rightarrow> (e', Some x) | (e', None) \<Rightarrow> EncodeTokens us e')"
  by (induction ts arbitrary: e) (auto split: prod.splits option.splits)

lemma EncodeTokens_Cons_None:
  assumes "EncodeTokens (t # ts) e = (e', None)"
  shows "\<exists>e1. EncodeToken t e = (e1, None) \<and> EncodeTokens ts e1 = (e', None)"
proof -
  obtain e1 r where T: "EncodeToken t e = (e1, r)" by (cases "EncodeToken t e")
  have "r = None" using assms T by (cases r) simp_all
  then show ?thesis using assms T by simp
qed

lemma EncodeTokens_append_None:
  assumes "EncodeTokens (ts @ us) e = (e', None)"
  shows "\<exists>e1. EncodeTokens ts e = (e1, None) \<and> EncodeTokens us e1 = (e', None)"
proof -
  obtain e1 r where T: "EncodeTokens ts e = (e1, r)" by (cases "EncodeTokens ts e")
  have "r = None" using assms T by (cases r) (simp_all add: EncodeTokens_append)
  then show ?thesis using assms T by (simp add: EncodeTokens_append)
qed

lemma EncodeTokens_entries_ok:
  "EncodeTokens (entry_tokens d) e = (e', None) \<Longrightarrow>
   [] \<notin> set (map fst d) \<and> emitted e' = emitted e @ concat (map spec_entry_xml d) \<and>
   tags e' = tags e \<and> (werr e = None \<longrightarrow> werr e' = None)"
proof (induction d arbitrary: e)
  case Nil
  then show ?case by simp
next
  case (Cons kv d)
  obtain k v where kv: "kv = (k, v)" by (cases kv)
  let ?n = "xml_Name [] (strings_Title k)"
  from Cons.prems kv
  have "EncodeTokens (StartToken (StartElement ?n []) # CharData (fmt_Sprint_v v) #
          EndElement ?n # entry_tokens d) e = (e', None)"
    by simp
  then obtain e1 e2 e3 where
    s1: "EncodeToken (StartToken (StartElement ?n [])) e = (e1, None)" and
    s2: "EncodeToken (CharData (fmt_Sprint_v v)) e1 = (e2, None)" and
    s3: "EncodeToken (EndElement ?n) e2 = (e3, None)" and
    s4: "EncodeTokens (entry_tokens d) e3 = (e', None)"
    by (blast dest: EncodeTokens_Cons_None)
  from EncodeToken_Start_ok [OF s1]
  have k: "strings_Title k \<noteq> []" and e1: "emitted e1 = emitted e @ start_text (StartElement ?n [])"
    and t1: "tags e1 = tags e @ [?n]"
    by simp_all
  from EncodeToken_CharData_ok [OF s2]
  have e2: "emitted e2 = emitted e1 @ xml_escaped False (fmt_Sprint_v v)" and t2: "tags e2 = tags e1"
    by simp_all
  from EncodeToken_End_ok [OF s3]
  have e3: "emitted e3 = emitted e2 @ end_text ?n" and t3: "tags e3 = butlast (tags e2)"
    and w3: "werr e3 = None"
    by simp_all
  from Cons.IH [OF s4]
  have rest: "[] \<notin> set (map fst d)" "emitted e' = emitted e3 @ concat (map spec_entry_xml d)"
    "tags e' = tags e3" "werr e' = None"
    using w3 by simp_all
  have "emitted e3 = emitted e @ spec_entry_xml kv"
    using e1 e2 e3 by (simp add: kv spec_entry_xml_def start_text_def end_text_def)
  then show ?case
    using rest k t1 t2 t3 by (simp add: kv strings_Title_Nil_iff)
qed

lemma EncodeTokens_Data_ok:
  assumes "EncodeTokens (Data_tokens d start) e = (e', None)"
  shows "Local (Name start) \<noteq> [] \<and> [] \<notin> set (map fst d) \<and> werr e = None \<and> werr e' = None \<and>
         emitted e' = emitted e @ spec_Data_xml d start \<and> tags e' = tags e"
proof -
  from assms have "EncodeTokens (StartToken start # (entry_tokens d @ [EndElement (Name start)])) e
      = (e', None)"
    by (simp add: Data_tokens_def)
  then obtain e1 where s1: "EncodeToken (StartToken start) e = (e1, None)"
    and r: "EncodeTokens (entry_tokens d @ [EndElement (Name start)]) e1 = (e', None)"
    by (blast dest: EncodeTokens_Cons_None)
  from r obtain e2 where s2: "EncodeTokens (entry_tokens d) e1 = (e2, None)"
    and s3': "EncodeTokens [EndElement (Name start)] e2 = (e', None)"
    by (blast dest: EncodeTokens_append_None)
  from EncodeTokens_Cons_None [OF s3']
  have s3: "EncodeToken (EndElement (Name start)) e2 = (e', None)"
    by auto
  from EncodeToken_Start_ok [OF s1]
  have n: "Local (Name start) \<noteq> []" and w: "werr e = None"
    and e1: "emitted e1 = emitted e @ start_text start" and t1: "tags e1 = tags e @ [Name start]"
    by simp_all
  from EncodeTokens_entries_ok [OF s2]
  have k: "[] \<notin> set (map fst d)" and e2: "emitted e2 = emitted e1 @ concat (map spec_entry_xml d)"
    and t2: "tags e2 = tags e1"
    by simp_all
  from EncodeToken_End_ok [OF s3]
  have e3: "emitted e' = emitted e2 @ end_text (Name start)" and t3: "tags e' = butlast (tags e2)"
    and w': "werr e' = None"
    by simp_all
  show ?thesis
    using n k w w' e1 e2 e3 t1 t2 t3 by (simp add: spec_Data_xml_def)
qed

lemma Flush_None:
  assumes "Flush e = (e', None)"
  shows "werr e = None \<and> werr e' = None \<and> buf e' = [] \<and> written (wr e') = emitted e \<and>
         tags e' = tags e"
proof -
  have "werr (fst (Flush e)) = None"
    using assms Flush_snd [of e] by simp
  from Flush_ok [OF this] Flush_tags [of e] assms Flush_snd [of e]
  show ?thesis by simp
qed

lemma MarshalXML_None:
  assumes "MarshalXML d e start = (e', None)"
  shows "Local (Name start) \<noteq> [] \<and> [] \<notin> set (map fst d) \<and> werr e = None \<and> werr e' = None \<and>
         buf e' = [] \<and> written (wr e') = written (wr e) @ buf e @ spec_Data_xml d start \<and>
         tags e' = tags e"
proof -
  obtain e1 r where T: "EncodeTokens (Data_tokens d start) e = (e1, r)"
    by (cases "EncodeTokens (Data_tokens d start) e")
  have r: "r = None" using assms T by (cases r) (simp_all add: MarshalXML_def)
  then have F: "Flush e1 = (e', None)"
    using assms T by (simp add: MarshalXML_def)
  from EncodeTokens_Data_ok [OF T [unfolded r]] Flush_None [OF F]
  show ?thesis by (simp add: emitted_def)
qed

subsubsection \<open>On a sink that accepts every write\<close>

lemma write_start_tag_healthy:
  assumes "werr e = None" and "room (wr e) = None"
  shows "werr (write_start_tag st e) = None \<and> room (wr (write_start_tag st e)) = None \<and>
         buf (write_start_tag st e) \<noteq> []"
proof -
  let ?g = "\<lambda>e. fold write_attr (Attr st)
          (write_xmlns (Space (Name st))
             (bufio_WriteString (Local (Name st)) (bufio_WriteByte (CHR ''<'') e)))"
  have "emits ?g ((([CHR ''<''] @ Local (Name st)) @
        (if Space (Name st) \<noteq> []
         then '' xmlns='' @ [CHR 0x22] @ xml_escaped True (Space (Name st)) @ [CHR 0x22]
         else [])) @ concat (map attr_text (Attr st)))"
    by (intro emits_comp emits_WriteByte emits_WriteString emits_write_xmlns
          emits_fold_write_attr)
  from emits_healthy [OF this assms]
  have "werr (?g e) = None" and "room (wr (?g e)) = None" by blast+
  from bufio_WriteByte_healthy [OF this, of "CHR ''>''"]
  show ?thesis by (simp add: write_start_tag_def)
qed

lemma write_end_tag_healthy:
  assumes "werr e = None" and "room (wr e) = None"
  shows "werr (write_end_tag n e) = None \<and> room (wr (write_end_tag n e)) = None \<and>
         buf (write_end_tag n e) \<noteq> []"
proof -
  let ?g = "\<lambda>e. bufio_WriteString (Local n)
          (bufio_WriteByte (CHR ''/'') (bufio_WriteByte (CHR ''<'') e))"
  have "emits ?g (([CHR ''<''] @ [CHR ''/'']) @ Local n)"
    by (intro emits_comp emits_WriteByte emits_WriteString)
  from emits_healthy [OF this assms]
  have "werr (?g e) = None" and "room (wr (?g e)) = None" by blast+
  from bufio_WriteByte_healthy [OF this, of "CHR ''>''"]
  show ?thesis by (simp add: write_end_tag_def)
qed

lemma EncodeToken_Start_healthy:
  assumes "werr e = None" and "room (wr e) = None" and "Local (Name st) \<noteq> []"
  shows "\<exists>e'. EncodeToken (StartToken st) e = (e', None) \<and> werr e' = None \<and>
           room (wr e') = None \<and> buf e' \<noteq> []"
proof -
  let ?e1 = "e\<lparr>tags := tags e @ [Name st]\<rparr>"
  have "werr ?e1 = None" and "room (wr ?e1) = None" using assms by simp_all
  from write_start_tag_healthy [OF this, of st] assms(3)
  show ?thesis by (simp add: EncodeToken_def writeStart_def)
qed

lemma EncodeToken_End_healthy:
  assumes "werr e = None" and "room (wr e) = None" and "Local n \<noteq> []" and "tags e = ts @ [n]"
  shows "\<exists>e'. EncodeToken (EndElement n) e = (e', None) \<and> werr e' = None \<and>
           room (wr e') = None \<and> buf e' \<noteq> []"
proof -
  let ?e1 = "e\<lparr>tags := butlast (tags e)\<rparr>"
  have "werr ?e1 = None" and "room (wr ?e1) = None" using assms by simp_all
  from write_end_tag_healthy [OF this, of n] assms(3,4)
  show ?thesis by (simp add: EncodeToken_def writeEnd_def)
qed

lemma EncodeToken_CharData_healthy:
  assumes "werr e = None" and "room (wr e) = None"
  shows "\<exists>e'. EncodeToken (CharData s) e = (e', None) \<and> werr e' = None \<and> room (wr e') = None"
  using emits_healthy [OF emits_escapeText assms, of False s]
  by (simp add: EncodeToken_def Let_def)

lemma EncodeTokens_entries_healthy:
  "werr e = None \<Longrightarrow> room (wr e) = None \<Longrightarrow> buf e \<noteq> [] \<Longrightarrow> [] \<notin> set (map fst d) \<Longrightarrow>
   \<exists>e'. EncodeTokens (entry_tokens d) e = (e', None) \<and> werr e' = None \<and>
     room (wr e') = None \<and> buf e' \<noteq> []"
proof (induction d arbitrary: e)
  case Nil
  then show ?case by simp
next
  case (Cons kv d)
  obtain k v where kv: "kv = (k, v)" by (cases kv)
  let ?n = "xml_Name [] (strings_Title k)"
  have k: "Local ?n \<noteq> []"
    using Cons.prems(4) kv by (auto simp: strings_Title_Nil_iff)
  from EncodeToken_Start_healthy [OF Cons.prems(1,2), of "StartElement ?n []"] k
  obtain e1 where s1: "EncodeToken (StartToken (StartElement ?n [])) e = (e1, None)"
    and h1: "werr e1 = None" "room (wr e1) = None"
    by auto
  from EncodeToken_CharData_healthy [OF h1, of "fmt_Sprint_v v"]
  obtain e2 where s2: "EncodeToken (CharData (fmt_Sprint_v v)) e1 = (e2, None)"
    and h2: "werr e2 = None" "room (wr e2) = None"
    by auto
  have "tags e2 = tags e @ [?n]"
    using EncodeToken_Start_ok [OF s1] EncodeToken_CharData_ok [OF s2] by simp
  from EncodeToken_End_healthy [OF h2 k this]
  obtain e3 where s3: "EncodeToken (EndElement ?n) e2 = (e3, None)"
    and h3: "werr e3 = None" "room (wr e3) = None" "buf e3 \<noteq> []"
    by auto
  have "[] \<notin> set (map fst d)" using Cons.prems(4) by simp
  from Cons.IH [OF h3 this]
  obtain e' where "EncodeTokens (entry_tokens d) e3 = (e', None)"
    and "werr e' = None" "room (wr e') = None" "buf e' \<noteq> []"
    by auto
  then show ?case
    using s1 s2 s3 by (simp add: kv)
qed

lemma EncodeTokens_start_entries_healthy:
  assumes "werr e = None" and "room (wr e) = None" and "Local (Name start) \<noteq> []"
    and "[] \<notin> set (map fst d)"
  shows "\<exists>e'. EncodeTokens (StartToken start # entry_tokens d) e = (e', None) \<and> werr e' = None \<and>
     room (wr e') = None \<and> buf e' \<noteq> [] \<and> tags e' = tags e @ [Name start] \<and>
     emitted e' = emitted e @ start_text start @ concat (map spec_entry_xml d)"
proof -
  from EncodeToken_Start_healthy [OF assms(1,2,3)]
  obtain e1 where s1: "EncodeToken (StartToken start) e = (e1, None)"
    and h1: "werr e1 = None" "room (wr e1) = None" "buf e1 \<noteq> []"
    by auto
  from EncodeTokens_entries_healthy [OF h1 assms(4)]
  obtain e2 where s2: "EncodeTokens (entry_tokens d) e1 = (e2, None)"
    and h2: "werr e2 = None" "room (wr e2) = None" "buf e2 \<noteq> []"
    by auto
  from EncodeToken_Start_ok [OF s1] EncodeTokens_entries_ok [OF s2]
  have "tags e2 = tags e @ [Name start]"
    and "emitted e2 = emitted e @ start_text start @ concat (map spec_entry_xml d)"
    by simp_all
  then show ?thesis
    using s1 s2 h2 by simp
qed

lemma MarshalXML_healthy:
  assumes "Local (Name start) \<noteq> []" and "[] \<notin> set (map fst d)"
    and "werr e = None" and "room (wr e) = None"
  shows "MarshalXML d e start =
     (e\<lparr>buf := [], wr := (wr e)\<lparr>written := written (wr e) @ buf e @ spec_Data_xml d start\<rparr>\<rparr>,
      None)"
proof -
  from EncodeTokens_start_entries_healthy [OF assms(3,4,1,2)]
  obtain e2 where s2: "EncodeTokens (StartToken start # entry_tokens d) e = (e2, None)"
    and h2: "werr e2 = None" "room (wr e2) = None"
    and t2: "tags e2 = tags e @ [Name start]"
    by auto
  from EncodeToken_End_healthy [OF h2 assms(1) t2]
  obtain e3 where s3: "EncodeToken (EndElement (Name start)) e2 = (e3, None)"
    and h3: "werr e3 = None" "room (wr e3) = None"
    by auto
  have T: "EncodeTokens (Data_tokens d start) e = (e3, None)"
    using s2 s3 EncodeTokens_append [of "StartToken start # entry_tokens d"
        "[EndElement (Name start)]" e]
    by (simp add: Data_tokens_def)
  from EncodeTokens_Data_ok [OF T]
  have em: "emitted e3 = emitted e @ spec_Data_xml d start" and t3: "tags e3 = tags e"
    by simp_all
  have "Flush e3 = (e3\<lparr>buf := [], wr := (wr e3)\<lparr>written := emitted e3\<rparr>\<rparr>, None)"
    using h3 by (rule Flush_healthy)
  moreover have "e3\<lparr>buf := [], wr := (wr e3)\<lparr>written := emitted e3\<rparr>\<rparr> =
      e\<lparr>buf := [], wr := (wr e)\<lparr>written := written (wr e) @ buf e @ spec_Data_xml d start\<rparr>\<rparr>"
    using h3 t3 em assms(3,4) by (intro Encoder.equality Writer.equality) (simp_all add: emitted_def)
  ultimately show ?thesis
    using T by (simp add: MarshalXML_def)
qed

lemma entry_tokens_append: "entry_tokens (d1 @ d2) = entry_tokens d1 @ entry_tokens d2"
  by (induction d1) auto

lemma EncodeToken_no_name:
  "EncodeToken (StartToken (StartElement (xml_Name sp []) as)) e =
     (e, Some (errorString ''xml: start tag with no name''))"
  by (simp add: EncodeToken_def writeStart_def)

lemma MarshalXML_empty_key:
  assumes "Local (Name start) \<noteq> []" and "[] \<notin> set (map fst d1)"
    and "werr e = None" and "room (wr e) = None"
  shows "\<exists>e'. MarshalXML (d1 @ ([], v) # d2) e start =
           (e', Some (errorString ''xml: start tag with no name'')) \<and>
         emitted e' = emitted e @ start_text start @ concat (map spec_entry_xml d1) \<and>
         tags e' = tags e @ [Name start] \<and> buf e' \<noteq> []"
proof -
  from EncodeTokens_start_entries_healthy [OF assms(3,4,1,2)]
  obtain e2 where s2: "EncodeTokens (StartToken start # entry_tokens d1) e = (e2, None)"
    and h2: "buf e2 \<noteq> []" "tags e2 = tags e @ [Name start]"
      "emitted e2 = emitted e @ start_text start @ concat (map spec_entry_xml d1)"
    by auto
  let ?rest = "StartToken (StartElement (xml_Name [] []) []) #
      (CharData (fmt_Sprint_v v) # EndElement (xml_Name [] []) # entry_tokens d2 @
       [EndElement (Name start)])"
  have split: "Data_tokens (d1 @ ([], v) # d2) start = (StartToken start # entry_tokens d1) @ ?rest"
    by (simp add: Data_tokens_def entry_tokens_append strings_Title_def)
  have refused: "EncodeTokens ?rest e2 = (e2, Some (errorString ''xml: start tag with no name''))"
    by (simp add: EncodeToken_no_name)
  have "EncodeTokens ((StartToken start # entry_tokens d1) @ ?rest) e = EncodeTokens ?rest e2"
    unfolding EncodeTokens_append [of "StartToken start # entry_tokens d1" ?rest e] s2
    by simp
  then have "EncodeTokens (Data_tokens (d1 @ ([], v) # d2) start) e =
      (e2, Some (errorString ''xml: start tag with no name''))"
    unfolding split refused .
  then show ?thesis
    using h2 by (simp add: MarshalXML_def)
qed

subsubsection \<open>With valid names the only error is the write error\<close>

lemma EncodeToken_Start_werr:
  "Local (Name st) \<noteq> [] \<Longrightarrow>
   snd (EncodeToken (StartToken st) e) = werr (fst (EncodeToken (StartToken st) e)) \<and>
   tags (fst (EncodeToken (StartToken st) e)) = tags e @ [Name st]"
  using emits_tags [OF emits_write_start_tag, of st "e\<lparr>tags := tags e @ [Name st]\<rparr>"]
  by (simp add: EncodeToken_def writeStart_def)

lemma EncodeToken_End_werr:
  "Local n \<noteq> [] \<Longrightarrow> tags e = ts @ [n] \<Longrightarrow>
   snd (EncodeToken (EndElement n) e) = werr (fst (EncodeToken (EndElement n) e)) \<and>
   tags (fst (EncodeToken (EndElement n) e)) = ts"
  using emits_tags [OF emits_write_end_tag, of n "e\<lparr>tags := butlast (tags e)\<rparr>"]
  by (simp add: EncodeToken_def writeEnd_def)

lemma EncodeToken_CharData_werr:
  "snd (EncodeToken (CharData s) e) = werr (fst (EncodeToken (CharData s) e)) \<and>
   tags (fst (EncodeToken (CharData s) e)) = tags e"
  using emits_tags [OF emits_escapeText, of False s e]
  by (simp add: EncodeToken_def Let_def)

lemma EncodeTokens_entries_werr:
  "[] \<notin> set (map fst d) \<Longrightarrow> EncodeTokens (entry_tokens d) e = (e', Some x) \<Longrightarrow> werr e' = Some x"
proof (induction d arbitrary: e)
  case Nil
  then show ?case by simp
next
  case (Cons kv d)
  obtain k v where kv: "kv = (k, v)" by (cases kv)
  let ?n = "xml_Name [] (strings_Title k)"
  have k: "Local ?n \<noteq> []"
    using Cons.prems(1) kv by (auto simp: strings_Title_Nil_iff)
  obtain e1 r1 where s1: "EncodeToken (StartToken (StartElement ?n [])) e = (e1, r1)"
    by (cases "EncodeToken (StartToken (StartElement ?n [])) e")
  obtain e2 r2 where s2: "EncodeToken (CharData (fmt_Sprint_v v)) e1 = (e2, r2)"
    by (cases "EncodeToken (CharData (fmt_Sprint_v v)) e1")
  obtain e3 r3 where s3: "EncodeToken (EndElement ?n) e2 = (e3, r3)"
    by (cases "EncodeToken (EndElement ?n) e2")
  from EncodeToken_Start_werr [of "StartElement ?n []" e] k s1
  have w1: "r1 = werr e1" and t1: "tags e1 = tags e @ [?n]" by simp_all
  from EncodeToken_CharData_werr [of "fmt_Sprint_v v" e1] s2
  have w2: "r2 = werr e2" and t2: "tags e2 = tags e1" by simp_all
  from EncodeToken_End_werr [OF k, of e2 "tags e"] s3 t1 t2
  have w3: "r3 = werr e3" by simp
  have d: "[] \<notin> set (map fst d)" using Cons.prems(1) by simp
  show ?case
  proof (cases r1)
    case (Some y)
    then show ?thesis using Cons.prems(2) s1 w1 by (simp add: kv)
  next
    case n1: None
    show ?thesis
    proof (cases r2)
      case (Some y)
      then show ?thesis using Cons.prems(2) s1 n1 s2 w2 by (simp add: kv)
    next
      case n2: None
      show ?thesis
      proof (cases r3)
        case (Some y)
        then show ?thesis using Cons.prems(2) s1 n1 s2 n2 s3 w3 by (simp add: kv)
      next
        case n3: None
        then have "EncodeTokens (entry_tokens d) e3 = (e', Some x)"
          using Cons.prems(2) s1 n1 s2 n2 s3 by (simp add: kv)
        from Cons.IH [OF d this] show ?thesis .
      qed
    qed
  qed
qed

lemma MarshalXML_werr:
  assumes "Local (Name start) \<noteq> []" and "[] \<notin> set (map fst d)"
  shows "snd (MarshalXML d e start) = werr (fst (MarshalXML d e start))"
proof -
  obtain e3 r where T: "EncodeTokens (Data_tokens d start) e = (e3, r)"
    by (cases "EncodeTokens (Data_tokens d start) e")
  show ?thesis
  proof (cases r)
    case None
    then show ?thesis
      using T Flush_snd [of e3] by (simp add: MarshalXML_def)
  next
    case (Some x)
    obtain e1 r1 where s1: "EncodeToken (StartToken start) e = (e1, r1)"
      by (cases "EncodeToken (StartToken start) e")
    from EncodeToken_Start_werr [OF assms(1), of e] s1
    have w1: "r1 = werr e1" and t1: "tags e1 = tags e @ [Name start]" by simp_all
    have "werr e3 = Some x"
    proof (cases r1)
      case (Some y)
      then show ?thesis using T \<open>r = Some x\<close> s1 w1 by (simp add: Data_tokens_def)
    next
      case n1: None
      obtain e2 r2 where s2: "EncodeTokens (entry_tokens d) e1 = (e2, r2)"
        by (cases "EncodeTokens (entry_tokens d) e1")
      show ?thesis
      proof (cases r2)
        case (Some y)
        then have "e3 = e2" and "x = y"
          using T \<open>r = Some x\<close> s1 n1 s2 by (simp_all add: Data_tokens_def EncodeTokens_append)
        then show ?thesis
          using EncodeTokens_entries_werr [OF assms(2), of e1 e2 y] s2 Some by simp
      next
        case n2: None
        have t2: "tags e2 = tags e @ [Name start]"
          using EncodeTokens_entries_ok [OF s2 [unfolded n2]] t1 by simp
        from EncodeToken_End_werr [OF assms(1) t2]
        have "snd (EncodeToken (EndElement (Name start)) e2)
            = werr (fst (EncodeToken (EndElement (Name start)) e2))"
          by simp
        moreover have "EncodeToken (EndElement (Name start)) e2 = (e3, Some x)"
          using T \<open>r = Some x\<close> s1 n1 s2 n2
          by (auto simp: Data_tokens_def EncodeTokens_append split: prod.splits option.splits)
        ultimately show ?thesis by simp
      qed
    qed
    then show ?thesis
      using T Some by (simp add: MarshalXML_def)
  qed
qed

subsubsection \<open>Long values, failures and instances\<close>

lemma escapeText_from_plain:
  "\<forall>c\<in>set s. xml_escape b c = None \<Longrightarrow>
   escapeText_from b run s e = bufio_Write (run @ s) e"
  by (induction s arbitrary: run) simp_all

lemma xml_escape_a: "xml_escape b (CHR ''a'') = None"
  by (simp add: xml_escape_def)

lemma escapeText_replicate_a:
  "escapeText b (replicate n (CHR ''a'')) e = bufio_Write (replicate n (CHR ''a'')) e"
  using escapeText_from_plain [of "replicate n (CHR ''a'')" b "[]" e]
  by (simp add: escapeText_def xml_escape_a)

lemma bufio_Write_long_short_sink:
  "bufio_Write (replicate 5000 (CHR ''a''))
     \<lparr>buf = ''<Root><K>'', werr = None, wr = \<lparr>written = [], room = Some 100\<rparr>,
       tags = ts\<rparr> =
   \<lparr>buf = replicate 3996 (CHR ''a''), werr = Some ErrShortWrite,
     wr = \<lparr>written = ''<Root><K>'' @ replicate 91 (CHR ''a''), room = Some 0\<rparr>, tags = ts\<rparr>"
proof -
  let ?e = "\<lparr>buf = ''<Root><K>'', werr = None, wr = \<lparr>written = [], room = Some 100\<rparr>,
       tags = ts\<rparr>"
  let ?p = "replicate 5000 (CHR ''a'')"
  have av: "Available ?e = 4087" by (simp add: Available_def defaultBufSize_def)
  have tk: "take 4087 ?p = replicate 4087 (CHR ''a'')" by simp
  have dr: "drop 4087 ?p = replicate 913 (CHR ''a'')" by simp
  have fl: "fst (Flush (?e\<lparr>buf := buf ?e @ take (Available ?e) ?p\<rparr>)) =
     \<lparr>buf = replicate 3996 (CHR ''a''), werr = Some ErrShortWrite,
       wr = \<lparr>written = ''<Root><K>'' @ replicate 91 (CHR ''a''), room = Some 0\<rparr>, tags = ts\<rparr>"
    unfolding av tk
    by (simp add: Flush_def Write_def take_Cons' replicate_add [symmetric] del: replicate_add)
  have "bufio_write True ?p ?e =
     bufio_write True (drop (Available ?e) ?p)
       (fst (Flush (?e\<lparr>buf := buf ?e @ take (Available ?e) ?p\<rparr>)))"
    by (rule bufio_write_fill) (simp_all add: av)
  also have "\<dots> = fst (Flush (?e\<lparr>buf := buf ?e @ take (Available ?e) ?p\<rparr>))"
    unfolding fl by (subst bufio_write_stop) simp_all
  finally show ?thesis
    unfolding fl by (simp add: bufio_Write_def)
qed

lemma bufio_Write_long_buffer:
  "bufio_Write (replicate 5000 (CHR ''a''))
     \<lparr>buf = ''<Root><K>'', werr = None, wr = \<lparr>written = [], room = None\<rparr>, tags = ts\<rparr> =
   \<lparr>buf = replicate 913 (CHR ''a''), werr = None,
     wr = \<lparr>written = ''<Root><K>'' @ replicate 4087 (CHR ''a''), room = None\<rparr>, tags = ts\<rparr>"
proof -
  let ?e = "\<lparr>buf = ''<Root><K>'', werr = None, wr = \<lparr>written = [], room = None\<rparr>, tags = ts\<rparr>"
  let ?f = "\<lparr>buf = [], werr = None,
       wr = \<lparr>written = ''<Root><K>'' @ replicate 4087 (CHR ''a''), room = None\<rparr>, tags = ts\<rparr>"
  let ?p = "replicate 5000 (CHR ''a'')"
  have av: "Available ?e = 4087" by (simp add: Available_def defaultBufSize_def)
  have fl: "fst (Flush (?e\<lparr>buf := buf ?e @ take (Available ?e) ?p\<rparr>)) = ?f"
    unfolding av by (simp add: Flush_def Write_def)
  have dr: "drop (Available ?e) ?p = replicate 913 (CHR ''a'')"
    unfolding av by simp
  have "bufio_write True ?p ?e =
     bufio_write True (drop (Available ?e) ?p)
       (fst (Flush (?e\<lparr>buf := buf ?e @ take (Available ?e) ?p\<rparr>)))"
    by (rule bufio_write_fill) (simp_all add: av)
  also have "\<dots> = bufio_write True (replicate 913 (CHR ''a'')) ?f"
    by (simp only: fl dr)
  also have "\<dots> = \<lparr>buf = replicate 913 (CHR ''a''), werr = None,
     wr = \<lparr>written = ''<Root><K>'' @ replicate 4087 (CHR ''a''), room = None\<rparr>, tags = ts\<rparr>"
    by (subst bufio_write_stop) (simp_all add: Available_def defaultBufSize_def)
  finally show ?thesis
    by (simp add: bufio_Write_def)
qed

lemma EncodeToken_long_short_sink:
  "EncodeToken (CharData (replicate 5000 (CHR ''a'')))
     \<lparr>buf = ''<Root><K>'', werr = None, wr = \<lparr>written = [], room = Some 100\<rparr>,
       tags = [xml_Name [] ''Root'', xml_Name [] ''K'']\<rparr> =
   (\<lparr>buf = replicate 3996 (CHR ''a''), werr = Some ErrShortWrite,
      wr = \<lparr>written = ''<Root><K>'' @ replicate 91 (CHR ''a''), room = Some 0\<rparr>,
      tags = [xml_Name [] ''Root'', xml_Name [] ''K'']\<rparr>, Some ErrShortWrite)"
  by (simp add: EncodeToken_def escapeText_replicate_a bufio_Write_long_short_sink)

lemma EncodeToken_long_buffer:
  "EncodeToken (CharData (replicate 5000 (CHR ''a'')))
     \<lparr>buf = ''<Root><K>'', werr = None, wr = \<lparr>written = [], room = None\<rparr>,
       tags = [xml_Name [] ''Root'', xml_Name [] ''K'']\<rparr> =
   (\<lparr>buf = replicate 913 (CHR ''a''), werr = None,
      wr = \<lparr>written = ''<Root><K>'' @ replicate 4087 (CHR ''a''), room = None\<rparr>,
      tags = [xml_Name [] ''Root'', xml_Name [] ''K'']\<rparr>, None)"
  by (simp add: EncodeToken_def escapeText_replicate_a bufio_Write_long_buffer)

lemma EncodeToken_End_K_long_buffer:
  "EncodeToken (EndElement (xml_Name [] ''K''))
     \<lparr>buf = replicate 913 (CHR ''a''), werr = None,
      wr = \<lparr>written = ''<Root><K>'' @ replicate 4087 (CHR ''a''), room = None\<rparr>,
      tags = [xml_Name [] ''Root'', xml_Name [] ''K'']\<rparr> =
   (\<lparr>buf = replicate 913 (CHR ''a'') @ ''</K>'', werr = None,
      wr = \<lparr>written = ''<Root><K>'' @ replicate 4087 (CHR ''a''), room = None\<rparr>,
      tags = [xml_Name [] ''Root'']\<rparr>, None)"
  by (simp add: EncodeToken_def writeEnd_def write_end_tag_def bufio_WriteByte_def
      bufio_WriteString_def bufio_write_stop Available_def defaultBufSize_def)

lemma EncodeTokens_Root_K:
  "EncodeTokens [StartToken Root, StartToken (StartElement (xml_Name [] ''K'') [])]
     (xml_NewEncoder \<lparr>written = [], room = r\<rparr>) =
   (\<lparr>buf = ''<Root><K>'', werr = None, wr = \<lparr>written = [], room = r\<rparr>,
      tags = [xml_Name [] ''Root'', xml_Name [] ''K'']\<rparr>, None)"
  by (simp add: EncodeToken_def writeStart_def write_start_tag_def write_xmlns_def Root_def
      xml_NewEncoder_def bufio_WriteByte_def bufio_WriteString_def bufio_write_stop
      Available_def defaultBufSize_def)

lemma Data_tokens_long:
  "Data_tokens ((''k'', VString s) # d) Root =
     [StartToken Root, StartToken (StartElement (xml_Name [] ''K'') []), CharData s,
      EndElement (xml_Name [] ''K'')] @ entry_tokens d @ [EndElement (xml_Name [] ''Root'')]"
proof -
  have "strings_Title ''k'' = ''K''" by code_simp
  then show ?thesis by (simp add: Data_tokens_def Root_def)
qed

lemma EncodeTokens_long_buffer:
  "EncodeTokens [StartToken Root, StartToken (StartElement (xml_Name [] ''K'') []),
       CharData (replicate 5000 (CHR ''a'')), EndElement (xml_Name [] ''K'')]
     (xml_NewEncoder \<lparr>written = [], room = None\<rparr>) =
   (\<lparr>buf = replicate 913 (CHR ''a'') @ ''</K>'', werr = None,
      wr = \<lparr>written = ''<Root><K>'' @ replicate 4087 (CHR ''a''), room = None\<rparr>,
      tags = [xml_Name [] ''Root'']\<rparr>, None)"
proof -
  let ?ab = "[StartToken Root, StartToken (StartElement (xml_Name [] ''K'') [])]"
  let ?c = "CharData (replicate 5000 (CHR ''a''))"
  let ?d = "EndElement (xml_Name [] ''K'')"
  have "EncodeTokens (?ab @ [?c, ?d]) (xml_NewEncoder \<lparr>written = [], room = None\<rparr>) =
      EncodeTokens [?c, ?d]
        \<lparr>buf = ''<Root><K>'', werr = None, wr = \<lparr>written = [], room = None\<rparr>,
          tags = [xml_Name [] ''Root'', xml_Name [] ''K'']\<rparr>"
    unfolding EncodeTokens_append [of ?ab "[?c, ?d]"] EncodeTokens_Root_K by simp
  also have "\<dots> = (\<lparr>buf = replicate 913 (CHR ''a'') @ ''</K>'', werr = None,
      wr = \<lparr>written = ''<Root><K>'' @ replicate 4087 (CHR ''a''), room = None\<rparr>,
      tags = [xml_Name [] ''Root'']\<rparr>, None)"
    by (simp only: EncodeTokens.simps EncodeToken_long_buffer EncodeToken_End_K_long_buffer
        prod.case option.case)
  finally show ?thesis by simp
qed

lemma MarshalXML_name_x:
  "MarshalXML [(''name'', VString ''x'')] (xml_NewEncoder bytes_Buffer) Root =
     (\<lparr>buf = [], werr = None,
       wr = \<lparr>written = ''<Root><Name>x</Name></Root>'', room = None\<rparr>, tags = []\<rparr>, None)"
  by code_simp

lemma MarshalXML_first_failure:
  assumes "Data_tokens d start = ts @ t # us" and "EncodeTokens ts e = (e1, None)"
    and "EncodeToken t e1 = (e2, Some x)"
  shows "MarshalXML d e start = (e2, Some x)"
proof -
  have "EncodeTokens (t # us) e1 = (e2, Some x)"
    using assms(3) by simp
  then have "EncodeTokens (ts @ t # us) e = (e2, Some x)"
    unfolding EncodeTokens_append [of ts "t # us" e] assms(2) by simp
  then show ?thesis
    using assms(1) by (simp add: MarshalXML_def)
qed




subsection \<open>The XML renderer\<close>

lemma same_output_emits:
  assumes "emits f p" and "same_output pre a b" and "werr (f a) = None"
  shows "same_output pre (f a) (f b)"
proof -
  from assms(2) have wa: "werr a = None" and wb: "werr b = None" and t: "tags a = tags b"
    and rb: "room (wr b) = None" and eq: "emitted a = pre @ emitted b"
    by (simp_all add: same_output_def)
  from emits_healthy [OF assms(1) wb rb]
  have hb: "werr (f b) = None" "room (wr (f b)) = None" by blast+
  from emits_ok [OF assms(1) assms(3)] have ea: "emitted (f a) = emitted a @ p" by blast
  from emits_ok [OF assms(1) hb(1)] have eb: "emitted (f b) = emitted b @ p" by blast
  show ?thesis
    using assms(3) hb ea eb eq t emits_tags [OF assms(1), of a] emits_tags [OF assms(1), of b]
    by (simp add: same_output_def)
qed

lemma same_output_tags:
  "same_output pre a b \<Longrightarrow> same_output pre (a\<lparr>tags := ts\<rparr>) (b\<lparr>tags := ts\<rparr>)"
  by (simp add: same_output_def)

lemma same_output_writeStart:
  assumes "same_output pre a b" and "writeStart st a = (a', None)" and "werr a' = None"
  shows "\<exists>b'. writeStart st b = (b', None) \<and> same_output pre a' b'"
proof -
  have t: "tags a = tags b" using assms(1) by (simp add: same_output_def)
  have n: "Local (Name st) \<noteq> []"
    using writeStart_ok [OF assms(2,3)] by simp
  then have a': "a' = write_start_tag st (a\<lparr>tags := tags a @ [Name st]\<rparr>)"
    using assms(2) by (simp add: writeStart_def)
  from same_output_emits [OF emits_write_start_tag
      same_output_tags [OF assms(1), of "tags a @ [Name st]"] assms(3) [unfolded a']]
  show ?thesis
    using n a' t by (simp add: writeStart_def)
qed

lemma same_output_writeEnd:
  assumes "same_output pre a b" and "writeEnd n a = (a', None)" and "werr a' = None"
  shows "\<exists>b'. writeEnd n b = (b', None) \<and> same_output pre a' b'"
proof -
  have t: "tags a = tags b" using assms(1) by (simp add: same_output_def)
  have v: "Local n \<noteq> [] \<and> tags a \<noteq> [] \<and> last (tags a) = n"
    using writeEnd_ok [OF assms(2,3)] by simp
  then have a': "a' = write_end_tag n (a\<lparr>tags := butlast (tags a)\<rparr>)"
    using assms(2) by (auto simp: writeEnd_def split: if_splits)
  from same_output_emits [OF emits_write_end_tag
      same_output_tags [OF assms(1), of "butlast (tags a)"] assms(3) [unfolded a']]
  show ?thesis
    using v a' t by (auto simp: writeEnd_def)
qed

lemma same_output_EncodeToken:
  assumes "same_output pre a b" and "EncodeToken t a = (a', None)"
  shows "\<exists>b'. EncodeToken t b = (b', None) \<and> same_output pre a' b'"
proof -
  have w: "werr a' = None" using assms(2) by (rule EncodeToken_None_werr)
  show ?thesis
  proof (cases t)
    case (StartToken st)
    have "writeStart st a = (a', None)"
      using assms(2) StartToken by (auto simp: EncodeToken_def split: prod.splits option.splits)
    from same_output_writeStart [OF assms(1) this w]
    obtain b' where "writeStart st b = (b', None)" and s: "same_output pre a' b'" by blast
    moreover have "werr b' = None" using s by (simp add: same_output_def)
    ultimately show ?thesis by (simp add: EncodeToken_def StartToken)
  next
    case (EndElement n)
    have "writeEnd n a = (a', None)"
      using assms(2) EndElement by (auto simp: EncodeToken_def split: prod.splits option.splits)
    from same_output_writeEnd [OF assms(1) this w]
    obtain b' where "writeEnd n b = (b', None)" and s: "same_output pre a' b'" by blast
    moreover have "werr b' = None" using s by (simp add: same_output_def)
    ultimately show ?thesis by (simp add: EncodeToken_def EndElement)
  next
    case (CharData s)
    have a': "a' = escapeText False s a"
      using assms(2) CharData by (simp add: EncodeToken_def Let_def)
    from same_output_emits [OF emits_escapeText assms(1) w [unfolded a']]
    have s: "same_output pre a' (escapeText False s b)" using a' by simp
    moreover have "werr (escapeText False s b) = None" using s by (simp add: same_output_def)
    ultimately show ?thesis by (simp add: EncodeToken_def CharData Let_def)
  qed
qed

lemma same_output_EncodeTokens:
  "same_output pre a b \<Longrightarrow> EncodeTokens ts a = (a', None) \<Longrightarrow>
   \<exists>b'. EncodeTokens ts b = (b', None) \<and> same_output pre a' b'"
proof (induction ts arbitrary: a b)
  case Nil
  then show ?case by simp
next
  case (Cons t ts)
  from EncodeTokens_Cons_None [OF Cons.prems(2)]
  obtain a1 where A: "EncodeToken t a = (a1, None)" and R: "EncodeTokens ts a1 = (a', None)"
    by blast
  from same_output_EncodeToken [OF Cons.prems(1) A]
  obtain b1 where B: "EncodeToken t b = (b1, None)" and s: "same_output pre a1 b1" by blast
  from Cons.IH [OF s R] B show ?case by simp
qed

lemma same_output_Flush:
  assumes "same_output pre a b" and "Flush a = (a', None)"
  shows "\<exists>b'. Flush b = (b', None) \<and> same_output pre a' b' \<and> buf a' = [] \<and> buf b' = []"
proof -
  from assms(1) have wb: "werr b = None" and rb: "room (wr b) = None"
    and t: "tags a = tags b" and eq: "emitted a = pre @ emitted b"
    by (simp_all add: same_output_def)
  have fb: "Flush b = (b\<lparr>buf := [], wr := (wr b)\<lparr>written := emitted b\<rparr>\<rparr>, None)"
    using wb rb by (rule Flush_healthy)
  from Flush_None [OF assms(2)]
  have "werr a' = None" "buf a' = []" "written (wr a') = emitted a" "tags a' = tags a"
    by simp_all
  then show ?thesis
    using fb wb rb t eq by (simp add: same_output_def emitted_def)
qed

lemma same_output_MarshalXML:
  assumes "same_output pre a b" and "MarshalXML d a st = (a', None)"
  shows "\<exists>b'. MarshalXML d b st = (b', None) \<and> same_output pre a' b'"
proof -
  obtain a1 r where T: "EncodeTokens (Data_tokens d st) a = (a1, r)"
    by (cases "EncodeTokens (Data_tokens d st) a")
  have r: "r = None" using assms(2) T by (cases r) (simp_all add: MarshalXML_def)
  then have F: "Flush a1 = (a', None)"
    using assms(2) T by (simp add: MarshalXML_def)
  from same_output_EncodeTokens [OF assms(1) T [unfolded r]]
  obtain b1 where B: "EncodeTokens (Data_tokens d st) b = (b1, None)"
    and s: "same_output pre a1 b1" by blast
  from same_output_Flush [OF s F]
  obtain b' where "Flush b1 = (b', None)" and "same_output pre a' b'" by blast
  then show ?thesis using B by (simp add: MarshalXML_def)
qed

lemma same_output_marshalSimple:
  assumes "same_output pre a b" and "marshalSimple name s a = (a', None)"
  shows "\<exists>b'. marshalSimple name s b = (b', None) \<and> same_output pre a' b'"
proof -
  let ?st = "StartElement (xml_Name [] name) []"
  obtain a1 r1 where A1: "writeStart ?st a = (a1, r1)" by (cases "writeStart ?st a")
  have r1: "r1 = None"
    using assms(2) A1 by (cases r1) (simp_all add: marshalSimple_def)
  obtain a2 r2 where A2: "writeEnd (xml_Name [] name) (EscapeString s a1) = (a2, r2)"
    by (cases "writeEnd (xml_Name [] name) (EscapeString s a1)")
  have r2: "r2 = None"
    using assms(2) A1 r1 A2 by (cases r2) (simp_all add: marshalSimple_def)
  have a': "a2 = a'" and w: "werr a2 = None"
    using assms(2) A1 r1 A2 r2 by (auto simp: marshalSimple_def)
  from writeEnd_ok [OF A2 [unfolded r2] w]
  have w2: "werr (EscapeString s a1) = None" by simp
  from emits_ok [OF emits_EscapeString w2] have w1: "werr a1 = None" by blast
  from same_output_writeStart [OF assms(1) A1 [unfolded r1] w1]
  obtain b1 where B1: "writeStart ?st b = (b1, None)" and s1: "same_output pre a1 b1" by blast
  from same_output_emits [OF emits_EscapeString s1 w2]
  have s2: "same_output pre (EscapeString s a1) (EscapeString s b1)" .
  from same_output_writeEnd [OF s2 A2 [unfolded r2] w]
  obtain b2 where B2: "writeEnd (xml_Name [] name) (EscapeString s b1) = (b2, None)"
    and s3: "same_output pre a2 b2" by blast
  have "werr b2 = None" using s3 by (simp add: same_output_def)
  then show ?thesis
    using B1 B2 s3 a' by (simp add: marshalSimple_def)
qed

lemma same_output_marshalInterface:
  assumes "same_output pre a b" and "marshalInterface d a = (a', None)"
  shows "\<exists>b'. marshalInterface d b = (b', None) \<and> same_output pre a' b'"
proof -
  let ?st = "StartElement (xml_Name [] ''Data'') []"
  let ?a1 = "a\<lparr>tags := tags a @ [xml_Name [] []]\<rparr>"
  let ?b1 = "b\<lparr>tags := tags b @ [xml_Name [] []]\<rparr>"
  have t: "tags a = tags b" using assms(1) by (simp add: same_output_def)
  have s1: "same_output pre ?a1 ?b1"
    using same_output_tags [OF assms(1), of "tags a @ [xml_Name [] []]"] t by simp
  obtain a2 ra where A: "MarshalXML d ?a1 ?st = (a2, ra)" by (cases "MarshalXML d ?a1 ?st")
  have ra: "ra = None"
    using assms(2) A by (cases ra) (simp_all add: marshalInterface_def Let_def)
  from same_output_MarshalXML [OF s1 A [unfolded ra]]
  obtain b2 where B: "MarshalXML d ?b1 ?st = (b2, None)" and s2: "same_output pre a2 b2"
    by blast
  have t2: "tags a2 = tags b2" using s2 by (simp add: same_output_def)
  have len: "\<not> length (tags a2) > Suc (length (tags a))"
    and a': "a' = a2\<lparr>tags := take (length (tags a)) (tags a2)\<rparr>"
    using assms(2) A ra by (auto simp: marshalInterface_def Let_def split: if_splits)
  have s3: "same_output pre a' (b2\<lparr>tags := take (length (tags a)) (tags b2)\<rparr>)"
    using same_output_tags [OF s2, of "take (length (tags a)) (tags a2)"] t2 a' by simp
  show ?thesis
    using B len t t2 s3 by (simp add: marshalInterface_def Let_def)
qed

lemma same_output_marshalValue:
  assumes "same_output pre a b" and "marshalValue v a = (a', None)"
  shows "\<exists>b'. marshalValue v b = (b', None) \<and> same_output pre a' b'"
proof (cases v)
  case VNil
  then show ?thesis using assms by simp
next
  case (VBool x)
  then show ?thesis using same_output_marshalSimple [OF assms(1)] assms(2) by simp
next
  case (VInt x)
  then show ?thesis using same_output_marshalSimple [OF assms(1)] assms(2) by simp
next
  case (VString x)
  then show ?thesis using same_output_marshalSimple [OF assms(1)] assms(2) by simp
next
  case VNaN
  then show ?thesis using same_output_marshalSimple [OF assms(1)] assms(2) by simp
next
  case (VData d)
  then show ?thesis using same_output_marshalInterface [OF assms(1)] assms(2) by simp
qed

lemma xml_Encode_same_output:
  assumes "same_output pre a b" and "xml_Encode v a = (a', None)"
  shows "\<exists>b'. xml_Encode v b = (b', None) \<and> written (wr a') = pre @ written (wr b')"
proof -
  obtain a1 ra where A: "marshalValue v a = (a1, ra)" by (cases "marshalValue v a")
  have ra: "ra = None"
    using assms(2) A by (cases ra) (simp_all add: xml_Encode_def)
  then have fa: "Flush a1 = (a', None)"
    using assms(2) A by (simp add: xml_Encode_def)
  from same_output_marshalValue [OF assms(1) A [unfolded ra]]
  obtain b1 where B: "marshalValue v b = (b1, None)" and s1: "same_output pre a1 b1" by blast
  from same_output_Flush [OF s1 fa]
  obtain b' where fb: "Flush b1 = (b', None)" and s2: "same_output pre a' b'"
    and e: "buf a' = []" "buf b' = []"
    by blast
  have "xml_Encode v b = (b', None)"
    using B fb by (simp add: xml_Encode_def)
  moreover have "written (wr a') = pre @ written (wr b')"
    using s2 e by (simp add: same_output_def emitted_def)
  ultimately show ?thesis by blast
qed

lemma same_output_NewEncoder:
  "same_output (written w) (xml_NewEncoder w) (xml_NewEncoder bytes_Buffer)"
  by (simp add: same_output_def xml_NewEncoder_def bytes_Buffer_def emitted_def)



subsection \<open>The binary renderer on a path\<close>

text \<open>
  Claim C7. For a path that opens to a directory the renderer on a path (no reader)
  fails with the error \<open>'<path>' is a directory\<close> and leaves the writer untouched;
  for a path that cannot be opened it returns the error of \<open>os.Open\<close> and leaves the
  writer untouched.
\<close>

theorem binaryRender_directory_and_missing:
  "(os_Open p = Inr f \<and> Stat f = Inr fi \<and> IsDir fi \<longrightarrow>
      binaryRender_Render os_Open p None w =
        (w, Some (errorString ([CHR 0x27] @ p @ [CHR 0x27] @ '' is a directory'')))) \<and>
   (os_Open p = Inl x \<longrightarrow> binaryRender_Render os_Open p None w = (w, Some x))"
  by (simp add: binaryRender_Render_def)

theorem binaryRender_directory_and_missing_witness:
  "example_fs ''/app/static'' =
     Inr \<lparr>Stat = Inr \<lparr>IsDir = True, Size = 4096\<rparr>,
          content = \<lparr>remaining = [],
                     fails_with = Some (PathError ''read'' ''/app/static'' ''is a directory''),
                     closer = True\<rparr>\<rparr> \<and>
   binaryRender_Render example_fs ''/app/static'' None bytes_Buffer =
     (bytes_Buffer, Some (errorString ([CHR 0x27] @ ''/app/static'' @ [CHR 0x27] @ '' is a directory''))) \<and>
   example_fs ''/app/nope'' = Inl (PathError ''open'' ''/app/nope'' ''no such file or directory'') \<and>
   binaryRender_Render example_fs ''/app/nope'' None bytes_Buffer =
     (bytes_Buffer, Some (PathError ''open'' ''/app/nope'' ''no such file or directory'')) \<and>
   written (fst (binaryRender_Render example_fs ''/app/nope'' None bytes_Buffer)) = []"
  using binaryRender_directory_and_missing
          [where os_Open = example_fs and p = "''/app/static''"
             and f = "\<lparr>Stat = Inr \<lparr>IsDir = True, Size = 4096\<rparr>,
               content = \<lparr>remaining = [],
                     fails_with = Some (PathError ''read'' ''/app/static'' ''is a directory''),
                     closer = True\<rparr>\<rparr>"
             and fi = "\<lparr>IsDir = True, Size = 4096\<rparr>" and w = bytes_Buffer
             and x = ErrShortWrite]
        binaryRender_directory_and_missing
          [where os_Open = example_fs and p = "''/app/nope''"
             and f = "\<lparr>Stat = Inl ErrShortWrite, content = bytes_NewReader []\<rparr>"
             and fi = "\<lparr>IsDir = False, Size = 0\<rparr>" and w = bytes_Buffer
             and x = "PathError ''open'' ''/app/nope'' ''no such file or directory''"]
  by (simp add: example_fs_def bytes_Buffer_def)

end

